theory Spec2Isabelle
  imports Complex_Main "HOL-Library.Multiset"
begin

section \<open>Common conventions\<close>

text \<open>
  Times are epoch milliseconds (\<open>Date.now()\<close>), modelled as \<open>int\<close>. Every function
  that reads the clock in the source takes the reading as an argument. JavaScript
  truthiness is written out: an optional string is truthy when it is present and
  non-empty, an optional number when it is present and non-zero.
\<close>

definition truthy_str :: "string option \<Rightarrow> bool" where
  "truthy_str s = (case s of None \<Rightarrow> False | Some v \<Rightarrow> v \<noteq> [])"

definition truthy_num :: "int option \<Rightarrow> bool" where
  "truthy_num n = (case n of None \<Rightarrow> False | Some v \<Rightarrow> v \<noteq> 0)"

text \<open>
  \<open>sleep(ms)\<close> is \<open>new Promise(resolve => setTimeout(resolve, ms))\<close> in every
  class. Node's timer takes a delay between 1 and \<open>2^31 - 1\<close> milliseconds, truncated
  to an integer; any other delay (below 1, or above \<open>2^31 - 1\<close>) is set to 1. The
  promise resolves when the timer has run for that many milliseconds.
\<close>

definition TIMEOUT_MAX :: int where
  "TIMEOUT_MAX = 2147483647"

definition timerDelay :: "rat \<Rightarrow> int" where
  "timerDelay ms = (if 1 \<le> ms \<and> ms \<le> of_int TIMEOUT_MAX then \<lfloor>ms\<rfloor> else 1)"

record RateLimitInfo =
  limit :: int
  remaining :: int
  reset :: int

section \<open>Credential pool (src/lib/auth/pool.ts)\<close>

record Session =
  authToken :: string
  ct0 :: string
  username :: "string option"
  userId :: "string option"

record PooledSession = Session +
  rateLimits :: "string \<rightharpoonup> RateLimitInfo"
  lastUsed :: int
  cooldownUntil :: "int option"

record SessionPool =
  sessions :: "PooledSession list"
  poolIndex :: nat

definition emptyPool :: SessionPool where
  "emptyPool = \<lparr>sessions = [], poolIndex = 0\<rparr>"

definition add :: "Session \<Rightarrow> SessionPool \<Rightarrow> SessionPool" where
  "add s pool = pool\<lparr>sessions := sessions pool @
     [\<lparr>authToken = authToken s, ct0 = ct0 s, username = username s, userId = userId s,
       rateLimits = Map.empty, lastUsed = 0, cooldownUntil = None\<rparr>]\<rparr>"

text \<open>The filter predicate of \<open>pool_getNext\<close> and \<open>getAvailableCount\<close>:
  \<open>!s.cooldownUntil || s.cooldownUntil < now\<close>.\<close>

definition notInCooldown :: "int \<Rightarrow> PooledSession \<Rightarrow> bool" where
  "notInCooldown now s =
     (\<not> truthy_num (cooldownUntil s) \<or> (case cooldownUntil s of Some u \<Rightarrow> u < now | None \<Rightarrow> False))"

definition availableSessions :: "int \<Rightarrow> SessionPool \<Rightarrow> PooledSession list" where
  "availableSessions now pool = filter (notInCooldown now) (sessions pool)"

text \<open>The value handed to the caller: the four credential fields.\<close>

definition toSession :: "PooledSession \<Rightarrow> Session" where
  "toSession s = \<lparr>authToken = authToken s, ct0 = ct0 s, username = username s, userId = userId s\<rparr>"

text \<open>The sort key of the all-in-cooldown branch: \<open>a.cooldownUntil || 0\<close>.\<close>

definition cooldownKey :: "PooledSession \<Rightarrow> int" where
  "cooldownKey s = (case cooldownUntil s of None \<Rightarrow> 0 | Some u \<Rightarrow> u)"

text \<open>
  \<open>SessionPool.getNext\<close> (named \<open>pool_getNext\<close> here, and its counter
  \<open>poolIndex\<close>, because the proxy manager has a \<open>getNext\<close> and a
  \<open>currentIndex\<close> too): the available sessions are a filtered view of the pooled objects, so the
  write to \<open>lastUsed\<close> lands in the pool; the model selects by index into the pool.
  The sort is stable, as \<open>Array.prototype.sort\<close> is.
\<close>

definition availableIndices :: "int \<Rightarrow> SessionPool \<Rightarrow> nat list" where
  "availableIndices now pool =
     filter (\<lambda>i. notInCooldown now (sessions pool ! i)) [0..<length (sessions pool)]"

definition pool_getNext :: "int \<Rightarrow> SessionPool \<Rightarrow> SessionPool \<times> Session option" where
  "pool_getNext now pool =
     (if sessions pool = [] then (pool, None)
      else let avail = availableIndices now pool in
        if avail = [] then
          (pool, Some (toSession (hd (sort_key cooldownKey (sessions pool)))))
        else
          let i = avail ! (poolIndex pool mod length avail);
              session = sessions pool ! i
          in (pool\<lparr>sessions := (sessions pool)[i := session\<lparr>lastUsed := now\<rparr>],
                   poolIndex := poolIndex pool + 1\<rparr>,
              Some (toSession session)))"

text \<open>
  \<open>markLimited\<close>: \<open>find\<close> yields the first pooled session with the same
  \<open>authToken\<close>; that object is updated in place.
\<close>

fun markFirst :: "string \<Rightarrow> string \<Rightarrow> int \<Rightarrow> int \<Rightarrow> PooledSession list \<Rightarrow> PooledSession list" where
  "markFirst tok endpoint resetTime now [] = []"
| "markFirst tok endpoint resetTime now (s # ss) =
     (if authToken s = tok then
        s\<lparr>rateLimits := (rateLimits s)(endpoint \<mapsto> \<lparr>limit = 0, remaining = 0, reset = resetTime\<rparr>),
          cooldownUntil := Some (now + 24 * 60 * 60 * 1000)\<rparr> # ss
      else s # markFirst tok endpoint resetTime now ss)"

definition markLimited :: "Session \<Rightarrow> string \<Rightarrow> int \<Rightarrow> int \<Rightarrow> SessionPool \<Rightarrow> SessionPool" where
  "markLimited session endpoint resetTime now pool =
     pool\<lparr>sessions := markFirst (authToken session) endpoint resetTime now (sessions pool)\<rparr>"

definition getAvailableCount :: "int \<Rightarrow> SessionPool \<Rightarrow> nat" where
  "getAvailableCount now pool = length (availableSessions now pool)"

section \<open>Rate limiter (src/lib/rate-limit.ts)\<close>

text \<open>
  \<open>EndpointLimit\<close> pairs the server-reported quota with the time it was recorded (the
  fields \<open>info\<close> and \<open>lastUpdated\<close> of the source; the second is \<open>infoUpdated\<close>
  here because \<open>CursorState\<close> has a \<open>lastUpdated\<close> as well). The quota numbers come
  from \<open>parseInt(header) || 0\<close>, hence \<open>int\<close>.
\<close>

record EndpointLimit =
  info :: RateLimitInfo
  infoUpdated :: int

type_synonym RateLimiter = "string \<rightharpoonup> EndpointLimit"

definition backoffMs :: int where
  "backoffMs = 60000"

definition update :: "int \<Rightarrow> string \<Rightarrow> RateLimitInfo \<Rightarrow> RateLimiter \<Rightarrow> RateLimiter" where
  "update now endpoint i lims = lims(endpoint \<mapsto> \<lparr>info = i, infoUpdated = now\<rparr>)"

text \<open>
  \<open>waitIfNeeded\<close> reads the clock twice: \<open>now\<close> for the staleness test and
  \<open>now'\<close> when it computes \<open>waitMs\<close>. It returns the limiter and the argument of
  \<open>sleep\<close> in milliseconds (\<open>None\<close> when it returns without sleeping). The low-quota
  delay \<open>backoffMs / info.remaining\<close> is a JavaScript number division, hence \<open>rat\<close>.
\<close>

definition waitIfNeeded :: "int \<Rightarrow> int \<Rightarrow> string \<Rightarrow> RateLimiter \<Rightarrow> RateLimiter \<times> rat option" where
  "waitIfNeeded now now' endpoint lims =
     (case lims endpoint of
        None \<Rightarrow> (lims, None)
      | Some l \<Rightarrow>
          if remaining (info l) > 5 then (lims, None)
          else
            let resetTime = reset (info l) * 1000 in
            if now > resetTime then (lims(endpoint := None), None)
            else if remaining (info l) \<le> 0 then
              (lims, Some (of_int (resetTime - now' + 1000)))
            else if remaining (info l) \<le> 5 then
              (lims, Some (of_int backoffMs / of_int (remaining (info l))))
            else (lims, None))"

text \<open>
  The time at which the timer of \<open>waitIfNeeded\<close> fires, when its sleep (if any)
  starts at \<open>now'\<close>: the call returns then, and not before.
\<close>

definition earliestReturn :: "int \<Rightarrow> rat option \<Rightarrow> int" where
  "earliestReturn now' slept =
     (case slept of None \<Rightarrow> now' | Some ms \<Rightarrow> now' + timerDelay ms)"

definition isLimited :: "int \<Rightarrow> string \<Rightarrow> RateLimiter \<Rightarrow> bool" where
  "isLimited now endpoint lims =
     (case lims endpoint of
        None \<Rightarrow> False
      | Some l \<Rightarrow> remaining (info l) \<le> 0 \<and> now < reset (info l) * 1000)"

section \<open>Network egress manager (src/lib/proxy.ts)\<close>

datatype Protocol = http | https | socks4 | socks5

record ProxyConfig =
  url :: string
  protocol :: "Protocol option"
  host :: string
  port :: nat
  auth :: "(string \<times> string) option"

text \<open>\<open>ProxyStatus.url\<close> is \<open>statusUrl\<close> here; dates are epoch milliseconds.\<close>

record ProxyStatus =
  statusUrl :: string
  failures :: nat
  lastFailure :: "int option"
  lastSuccess :: "int option"
  disabled :: bool

record ProxyManager =
  proxies :: "ProxyConfig list"
  status :: "string \<rightharpoonup> ProxyStatus"
  currentIndex :: nat
  maxFailures :: int
  failureCooldownMs :: int

text \<open>The constructor's defaults, before any proxy is loaded.\<close>

definition newProxyManager :: "int option \<Rightarrow> int option \<Rightarrow> ProxyManager" where
  "newProxyManager optMaxFailures optCooldown =
     \<lparr>proxies = [], status = Map.empty, currentIndex = 0,
      maxFailures = (case optMaxFailures of None \<Rightarrow> 3 | Some n \<Rightarrow> n),
      failureCooldownMs = (case optCooldown of None \<Rightarrow> 5 * 60 * 1000 | Some n \<Rightarrow> n)\<rparr>"

text \<open>
  \<open>addProxy\<close> after \<open>parseProxyUrl\<close>: the argument is the parsed configuration (URL
  parsing is outside the model).
\<close>

definition addProxy :: "ProxyConfig \<Rightarrow> ProxyManager \<Rightarrow> ProxyManager" where
  "addProxy config m =
     (if \<exists>p \<in> set (proxies m). url p = url config then m
      else m\<lparr>proxies := proxies m @ [config],
             status := (status m)(url config \<mapsto>
               \<lparr>statusUrl = url config, failures = 0, lastFailure = None,
                lastSuccess = None, disabled = False\<rparr>)\<rparr>)"

text \<open>
  \<open>getAvailableProxies\<close> filters \<open>proxies\<close> in order and, while filtering, re-enables
  every disabled path whose cooldown has elapsed. It returns the updated status map with
  the filtered list.
\<close>

fun availableFilter ::
  "int \<Rightarrow> int \<Rightarrow> ProxyConfig list \<Rightarrow> (string \<rightharpoonup> ProxyStatus)
     \<Rightarrow> (string \<rightharpoonup> ProxyStatus) \<times> ProxyConfig list" where
  "availableFilter now cooldown [] S = (S, [])"
| "availableFilter now cooldown (p # ps) S =
     (case S (url p) of
        None \<Rightarrow>
          (let (S', av) = availableFilter now cooldown ps S in (S', p # av))
      | Some st \<Rightarrow>
          if disabled st \<and> (case lastFailure st of None \<Rightarrow> False | Some t \<Rightarrow> now - t \<ge> cooldown)
          then
            (let (S', av) = availableFilter now cooldown ps
                              (S(url p \<mapsto> st\<lparr>disabled := False, failures := 0\<rparr>))
             in (S', p # av))
          else
            (let (S', av) = availableFilter now cooldown ps S
             in (S', if disabled st then av else p # av)))"

definition getAvailableProxies :: "int \<Rightarrow> ProxyManager \<Rightarrow> ProxyManager \<times> ProxyConfig list" where
  "getAvailableProxies now m =
     (let (S', av) = availableFilter now (failureCooldownMs m) (proxies m) (status m)
      in (m\<lparr>status := S'\<rparr>, av))"

definition resetAllProxies :: "ProxyManager \<Rightarrow> ProxyManager" where
  "resetAllProxies m =
     m\<lparr>status := (\<lambda>u. map_option (\<lambda>st. st\<lparr>disabled := False, failures := 0\<rparr>) (status m u))\<rparr>"

text \<open>The round-robin loop of \<open>getNext\<close>; \<open>attempts\<close> counts up to \<open>proxies.length\<close>.\<close>

function getNextLoop ::
  "ProxyManager \<Rightarrow> nat \<Rightarrow> ProxyConfig list \<Rightarrow> ProxyManager \<times> ProxyConfig option" where
  "getNextLoop m attempts availableProxies =
     (if attempts < length (proxies m) then
        (let proxy = proxies m ! (currentIndex m mod length (proxies m));
             m' = m\<lparr>currentIndex := (currentIndex m + 1) mod length (proxies m)\<rparr>
         in case status m (url proxy) of
              None \<Rightarrow> getNextLoop m' (attempts + 1) availableProxies
            | Some st \<Rightarrow>
                if \<not> disabled st then (m', Some proxy)
                else getNextLoop m' (attempts + 1) availableProxies)
      else (m, case availableProxies of [] \<Rightarrow> None | a # _ \<Rightarrow> Some a))"
  by pat_completeness auto
termination
  by (relation "measure (\<lambda>(m, attempts, av). length (proxies m) - attempts)") auto

declare getNextLoop.simps [simp del]

definition getNext :: "int \<Rightarrow> ProxyManager \<Rightarrow> ProxyManager \<times> ProxyConfig option" where
  "getNext now m =
     (if proxies m = [] then (m, None)
      else
        let (m1, availableProxies) = getAvailableProxies now m in
        if availableProxies = [] then (resetAllProxies m1, Some (hd (proxies m1)))
        else getNextLoop m1 0 availableProxies)"

definition getCurrent :: "ProxyManager \<Rightarrow> ProxyConfig option" where
  "getCurrent m =
     (if proxies m = [] then None
      else Some (proxies m ! (currentIndex m mod length (proxies m))))"

definition markFailed :: "int \<Rightarrow> string \<Rightarrow> ProxyManager \<Rightarrow> ProxyManager" where
  "markFailed now u m =
     (case status m u of
        None \<Rightarrow> m
      | Some st \<Rightarrow>
          let st1 = st\<lparr>failures := failures st + 1, lastFailure := Some now\<rparr>;
              st2 = (if int (failures st1) \<ge> maxFailures m then st1\<lparr>disabled := True\<rparr> else st1)
          in m\<lparr>status := (status m)(u \<mapsto> st2)\<rparr>)"

definition markSuccess :: "int \<Rightarrow> string \<Rightarrow> ProxyManager \<Rightarrow> ProxyManager" where
  "markSuccess now u m =
     (case status m u of
        None \<Rightarrow> m
      | Some st \<Rightarrow>
          m\<lparr>status := (status m)(u \<mapsto> st\<lparr>failures := 0, lastSuccess := Some now, disabled := False\<rparr>)\<rparr>)"

definition hasProxies :: "ProxyManager \<Rightarrow> bool" where
  "hasProxies m = (length (proxies m) > 0)"

section \<open>Operation identifier resolver (src/lib/query-ids/index.ts)\<close>

datatype error =
    UnknownOperation string
  | TransportError string
  | GraphQLError "string list"

definition FALLBACK_QUERY_IDS :: "string \<rightharpoonup> string" where
  "FALLBACK_QUERY_IDS = map_of
     [(''UserByScreenName'', ''1VOOyvKkiI3FMmkeDNxM9A''),
      (''UserByRestId'', ''tD8zKvQzwY3kdx5yz6YmOw''),
      (''UsersByRestIds'', ''XArUHrueMW0KQdZUdqidrA''),
      (''TweetDetail'', ''xd_EMdYvB9hfZsZ6Idri0w''),
      (''TweetResultByRestId'', ''7xflPyRiUxGVbJd4uWmbfg''),
      (''UserTweets'', ''q6xj5bs0hapm9309hexA_g''),
      (''UserTweetsAndReplies'', ''6hvhmQQ9zPIR8RZWHFAm4w''),
      (''UserMedia'', ''1H9ibIdchWO0_vz3wJLDTA''),
      (''Likes'', ''lIDpu_NWL7_VhimGGt0o6A''),
      (''HomeTimeline'', ''c-CzHF1LboFilMpsx4ZCrQ''),
      (''HomeLatestTimeline'', ''BKB7oi212Fi7kQtCBGE4zA''),
      (''Bookmarks'', ''2neUNDqrrFzbLui8yallcQ''),
      (''SearchTimeline'', ''VhUd6vHVmLBcw0uX-6jMLA''),
      (''Followers'', ''IOh4aS6UdGWGJUYTqliQ7Q''),
      (''Following'', ''zx6e-TLzRkeDO_a7p4b3JQ''),
      (''ListLatestTweetsTimeline'', ''RlZzktZY_9wJynoepm8ZsA'')]"

record CachedQueryIds =
  ids :: "string \<rightharpoonup> string"
  fetchedAt :: int

record QueryIdManager =
  cache :: "CachedQueryIds option"

definition cacheTTL :: int where
  "cacheTTL = 24 * 60 * 60 * 1000"

definition isCacheValid :: "int \<Rightarrow> QueryIdManager \<Rightarrow> bool" where
  "isCacheValid now q =
     (case cache q of None \<Rightarrow> False | Some c \<Rightarrow> now - fetchedAt c < cacheTTL)"

text \<open>
  The tables are plain JavaScript objects (an object literal, the result of
  \<open>JSON.parse\<close>, a spread of the literal), so \<open>table[name]\<close> finds the table's own
  entry and, when there is none, the member of \<open>Object.prototype\<close> of that name. What
  a lookup yields is therefore an id (an own string entry) or an inherited member.
\<close>

datatype QueryId = Id string | Inherited string

definition objectPrototypeNames :: "string list" where
  "objectPrototypeNames =
     [''constructor'', ''__proto__'', ''hasOwnProperty'', ''isPrototypeOf'',
      ''propertyIsEnumerable'', ''toLocaleString'', ''toString'', ''valueOf'',
      ''__defineGetter__'', ''__defineSetter__'', ''__lookupGetter__'', ''__lookupSetter__'']"

text \<open>
  A lookup \<open>table[name]\<close> used as a condition is a truthiness test: an own entry that
  is the empty string counts as absent; the inherited members (functions, and the
  prototype object itself) are truthy.
\<close>

definition lookupId :: "(string \<rightharpoonup> string) \<Rightarrow> string \<Rightarrow> QueryId option" where
  "lookupId table name =
     (case table name of
        Some v \<Rightarrow> if v = [] then None else Some (Id v)
      | None \<Rightarrow> if name \<in> set objectPrototypeNames then Some (Inherited name) else None)"

definition get :: "int \<Rightarrow> QueryIdManager \<Rightarrow> string \<Rightarrow> error + QueryId" where
  "get now q operationName =
     (case (if isCacheValid now q
            then (case cache q of None \<Rightarrow> None | Some c \<Rightarrow> lookupId (ids c) operationName)
            else None) of
        Some queryId \<Rightarrow> Inr queryId
      | None \<Rightarrow>
          (case lookupId FALLBACK_QUERY_IDS operationName of
             Some queryId \<Rightarrow> Inr queryId
           | None \<Rightarrow> Inl (UnknownOperation operationName)))"

section \<open>Request orchestrator (src/lib/client/base.ts)\<close>

text \<open>
  The transport is a parameter of the model: \<open>request\<close> maps the dispatcher (the
  proxy a \<open>ProxyAgent\<close> was built for, \<open>None\<close> for a direct connection) to a
  network failure or to a response, whose rate-limit headers are already parsed and whose
  body either lists API errors or carries the payload. URL and header construction and
  the random jitter sleep are left out. The clock readings of one call are collected in
  \<open>Clock\<close>, in the order the source takes them.
\<close>

record 'a Response =
  rateHeaders :: RateLimitInfo
  bodyErrors :: "string list option"
  bodyData :: 'a

record Clock =
  atResolve :: int
  atWait :: int
  atWait' :: int
  atDispatch :: int
  atResponse :: int

record BaseClient =
  queryIds :: QueryIdManager
  rateLimiter :: RateLimiter
  proxyManager :: "ProxyManager option"

definition getDispatcher :: "int \<Rightarrow> ProxyManager option \<Rightarrow> ProxyManager option \<times> ProxyConfig option" where
  "getDispatcher now pm =
     (case pm of
        None \<Rightarrow> (None, None)
      | Some m \<Rightarrow>
          if \<not> hasProxies m then (Some m, None)
          else (let (m', proxy) = getNext now m in (Some m', proxy)))"

text \<open>The \<open>catch\<close> block: mark the proxy held in \<open>currentProxy\<close> failed, then rotate.\<close>

definition onRequestError :: "int \<Rightarrow> ProxyConfig option \<Rightarrow> ProxyManager option \<Rightarrow> ProxyManager option" where
  "onRequestError now currentProxy pm =
     (case (currentProxy, pm) of
        (Some p, Some m) \<Rightarrow> Some (fst (getNext now (markFailed now (url p) m)))
      | _ \<Rightarrow> pm)"

definition graphql ::
  "Clock \<Rightarrow> (ProxyConfig option \<Rightarrow> string + 'a Response) \<Rightarrow> string \<Rightarrow> BaseClient
     \<Rightarrow> BaseClient \<times> (error + 'a)" where
  "graphql clk request operationName c =
     (case get (atResolve clk) (queryIds c) operationName of
        Inl e \<Rightarrow> (c, Inl e)
      | Inr queryId \<Rightarrow>
          let (lim1, slept) = waitIfNeeded (atWait clk) (atWait' clk) operationName (rateLimiter c);
              (pm1, dispatcher) = getDispatcher (atDispatch clk) (proxyManager c);
              currentProxy = (case pm1 of None \<Rightarrow> None | Some m \<Rightarrow> getCurrent m)
          in case request dispatcher of
               Inl msg \<Rightarrow>
                 (c\<lparr>rateLimiter := lim1,
                    proxyManager := onRequestError (atResponse clk) currentProxy pm1\<rparr>,
                  Inl (TransportError msg))
             | Inr response \<Rightarrow>
                 let pm2 = (case (currentProxy, pm1) of
                              (Some p, Some m) \<Rightarrow> Some (markSuccess (atResponse clk) (url p) m)
                            | _ \<Rightarrow> pm1);
                     lim2 = update (atResponse clk) operationName (rateHeaders response) lim1
                 in case bodyErrors response of
                      Some errs \<Rightarrow>
                        (c\<lparr>rateLimiter := lim2,
                           proxyManager := onRequestError (atResponse clk) currentProxy pm2\<rparr>,
                         Inl (GraphQLError errs))
                    | None \<Rightarrow>
                        (c\<lparr>rateLimiter := lim2, proxyManager := pm2\<rparr>, Inr (bodyData response)))"

section \<open>Paginator (src/lib/pagination.ts)\<close>

text \<open>
  \<open>PaginatedResult.cursor\<close> is \<open>nextCursor\<close> here (\<open>CursorState\<close> has a
  \<open>cursor\<close> too), and the option fields carry the prefix \<open>opt\<close>. An option that
  is \<open>undefined\<close> is \<open>None\<close>; \<open>maxPages\<close> is also \<open>None\<close> when \<open>parseInt\<close>
  gave \<open>NaN\<close>, which is falsy like \<open>undefined\<close>. Page and item counts are \<open>nat\<close>.
\<close>

record 'a PaginatedResult =
  items :: "'a list"
  nextCursor :: "string option"
  hasMore :: bool

record PaginationOptions =
  optAll :: "bool option"
  optMaxPages :: "int option"
  optResume :: "string option"
  optDelay :: "int option"
  optSilent :: "bool option"

record CursorState =
  cursor :: "string option"
  pagesFetched :: nat
  totalItems :: nat
  lastUpdated :: int
  query :: "string option"

text \<open>
  The file system, as far as the paginator sees it: a path holds a checkpoint as
  \<open>saveState\<close> writes it, or the JSON value \<open>null\<close>, or content that
  \<open>JSON.parse\<close> rejects, or nothing (other JSON values are not modelled). Paths are
  taken as resolved, and writes and unlinks as succeeding (the source swallows their
  errors).
\<close>

datatype FileContent = Checkpoint CursorState | JsonNull | Unparsable

type_synonym FileSystem = "string \<rightharpoonup> FileContent"

text \<open>
  \<open>this.state\<close> is an object after construction; \<open>loadState\<close> assigns it whatever
  \<open>JSON.parse\<close> returned, so it is \<open>null\<close> (\<open>None\<close>) after a file holding
  \<open>null\<close> was loaded. In the options, \<open>None\<close> stands for an absent key.
\<close>

record Paginator =
  options :: PaginationOptions
  state :: "CursorState option"

definition newPaginator :: "int \<Rightarrow> PaginationOptions \<Rightarrow> Paginator" where
  "newPaginator now opts =
     \<lparr>options = opts\<lparr>optDelay := (case optDelay opts of None \<Rightarrow> Some 1000 | Some d \<Rightarrow> Some d),
                         optSilent := (case optSilent opts of None \<Rightarrow> Some False | Some b \<Rightarrow> Some b)\<rparr>,
      state = Some \<lparr>cursor = None, pagesFetched = 0, totalItems = 0, lastUpdated = now,
                    query = None\<rparr>\<rparr>"

text \<open>The resume path when \<open>this.options.resume\<close> is truthy.\<close>

definition resumePath :: "PaginationOptions \<Rightarrow> string option" where
  "resumePath opts = (if truthy_str (optResume opts) then optResume opts else None)"

definition loadState :: "FileSystem \<Rightarrow> Paginator \<Rightarrow> Paginator \<times> CursorState option" where
  "loadState fs pg =
     (case resumePath (options pg) of
        None \<Rightarrow> (pg, None)
      | Some file \<Rightarrow>
          (case fs file of
             Some (Checkpoint data) \<Rightarrow> (pg\<lparr>state := Some data\<rparr>, Some data)
           | Some JsonNull \<Rightarrow> (pg\<lparr>state := None\<rparr>, None)
           | _ \<Rightarrow> (pg, None)))"

text \<open>
  \<open>saveState\<close> returns at once without a resume path. Otherwise it reads
  \<open>this.state.pagesFetched\<close> before its own \<open>try\<close> block, which throws a
  \<open>TypeError\<close> when \<open>this.state\<close> is \<open>null\<close>: the result \<open>None\<close>.
\<close>

definition saveState :: "int \<Rightarrow> string option \<Rightarrow> Paginator \<Rightarrow> FileSystem \<Rightarrow> FileSystem option" where
  "saveState now cur pg fs =
     (case resumePath (options pg) of
        None \<Rightarrow> Some fs
      | Some file \<Rightarrow>
          (case state pg of
             None \<Rightarrow> None
           | Some st \<Rightarrow>
               Some (fs(file \<mapsto> Checkpoint
                      \<lparr>cursor = cur, pagesFetched = pagesFetched st,
                       totalItems = totalItems st, lastUpdated = now, query = None\<rparr>))))"

definition clearState :: "Paginator \<Rightarrow> FileSystem \<Rightarrow> FileSystem" where
  "clearState pg fs =
     (case resumePath (options pg) of
        None \<Rightarrow> fs
      | Some file \<Rightarrow> fs(file := None))"

text \<open>\<open>maxPages\<close> of \<open>fetchAll\<close>: \<open>options.maxPages || (options.all ? Infinity : 1)\<close>.\<close>

datatype PageLimit = Pages int | Infinity

definition maxPagesOf :: "PaginationOptions \<Rightarrow> PageLimit" where
  "maxPagesOf opts =
     (let otherwise = (if optAll opts = Some True then Infinity else Pages 1) in
      case optMaxPages opts of
        None \<Rightarrow> otherwise
      | Some n \<Rightarrow> if n \<noteq> 0 then Pages n else otherwise)"

fun belowLimit :: "nat \<Rightarrow> PageLimit \<Rightarrow> bool" where
  "belowLimit pageCount (Pages n) = (int pageCount < n)"
| "belowLimit pageCount Infinity = True"

text \<open>
  The local variables of \<open>fetchAll\<close> together with what it mutates: the paginator, the
  file system and the clock (which only \<open>sleep\<close> advances in the model). The
  loop variable \<open>hasMore\<close> is \<open>hasMoreNow\<close>, and \<open>called\<close>
  counts the invocations of the page-fetch function.
\<close>

record 'a Run =
  allItems :: "'a list"
  cur :: "string option"
  hasMoreNow :: bool
  pageCount :: nat
  pag :: Paginator
  files :: FileSystem
  clock :: int
  called :: nat

text \<open>
  What a \<open>throw\<close> can deliver, told apart by what the \<open>catch\<close> block of
  \<open>fetchAll\<close> does with it: \<open>null\<close> or \<open>undefined\<close>; a \<open>TypeError\<close> raised by
  the runtime inside \<open>fetchAll\<close>; or another value, given by its \<open>message\<close>
  property and a payload that identifies it. The \<open>message\<close> is absent, a string, or
  a value without string methods (a number, a boolean, a plain object).
\<close>

datatype Message = NoMessage | Text string | NotText

datatype 'e Thrown = Nullish | TypeError | Value Message 'e

text \<open>
  The page-fetch function may answer differently on each call: it is a function of the
  call number and the cursor, and it returns a page or throws.
\<close>

type_synonym ('e, 'a) FetchPage = "nat \<Rightarrow> string option \<Rightarrow> 'e Thrown + 'a PaginatedResult"

text \<open>
  One pass through the body of the \<open>while\<close> loop after a page has arrived. The
  assignment \<open>this.state.pagesFetched = pageCount\<close> throws a \<open>TypeError\<close> when
  \<open>this.state\<close> is \<open>null\<close>, after the items were appended and the page counted:
  \<open>Inl\<close> is the run at that point (likewise if \<open>saveState\<close> threw).
\<close>

definition afterPage :: "PageLimit \<Rightarrow> 'a PaginatedResult \<Rightarrow> 'a Run \<Rightarrow> 'a Run + 'a Run" where
  "afterPage maxPages result r =
     (let allItems' = allItems r @ items result;
          pageCount' = pageCount r + 1
      in case state (pag r) of
           None \<Rightarrow>
             Inl (r\<lparr>allItems := allItems', pageCount := pageCount', called := called r + 1\<rparr>)
         | Some st \<Rightarrow>
             let pag' = (pag r)\<lparr>state := Some (st\<lparr>pagesFetched := pageCount',
                                                      totalItems := length allItems'\<rparr>)\<rparr>;
                 hasMore' = (hasMore result \<and> truthy_str (nextCursor result));
                 cursor' = nextCursor result;
                 r' = r\<lparr>allItems := allItems', cur := cursor', hasMoreNow := hasMore',
                        pageCount := pageCount', pag := pag', called := called r + 1\<rparr>
             in case saveState (clock r) cursor' pag' (files r) of
                  None \<Rightarrow> Inl r'
                | Some files' \<Rightarrow>
                    let clock' = (case optDelay (options pag') of
                                    None \<Rightarrow> clock r
                                  | Some delay \<Rightarrow>
                                      if hasMore' \<and> belowLimit pageCount' maxPages \<and> delay \<noteq> 0
                                      then clock r + timerDelay (of_int delay) else clock r)
                    in Inr (r'\<lparr>files := files', clock := clock'\<rparr>))"

text \<open>
  The \<open>while\<close> loop inside the \<open>try\<close> block. With \<open>--all\<close> it runs for as long
  as the server keeps reporting more data, so the model takes fuel: \<open>None\<close> means the
  fuel ran out before the loop ended. \<open>Inl\<close> is what the \<open>catch\<close> block receives:
  the value thrown, by the page-fetch function or by the loop body, and the run as it
  stood then.
\<close>

fun fetchLoop ::
  "nat \<Rightarrow> ('e, 'a) FetchPage \<Rightarrow> PageLimit \<Rightarrow> 'a Run \<Rightarrow> ('e Thrown \<times> 'a Run + 'a Run) option" where
  "fetchLoop 0 fetchFn maxPages r =
     (if hasMoreNow r \<and> belowLimit (pageCount r) maxPages then None else Some (Inr r))"
| "fetchLoop (Suc fuel) fetchFn maxPages r =
     (if hasMoreNow r \<and> belowLimit (pageCount r) maxPages then
        (case fetchFn (called r) (cur r) of
           Inl thrown \<Rightarrow> Some (Inl (thrown, r\<lparr>called := called r + 1\<rparr>))
         | Inr result \<Rightarrow>
             (case afterPage maxPages result r of
                Inl r' \<Rightarrow> Some (Inl (TypeError, r'))
              | Inr r' \<Rightarrow> fetchLoop fuel fetchFn maxPages r'))
      else Some (Inr r))"

record 'a FetchAllResult =
  resultItems :: "'a list"
  pagesLoaded :: nat
  complete :: bool

datatype ('e, 'a) Outcome = Returned "'a FetchAllResult" | Raised "'e Thrown"

text \<open>The state of the run when the \<open>try\<close> block is entered.\<close>

definition startRun :: "int \<Rightarrow> FileSystem \<Rightarrow> Paginator \<Rightarrow> 'a Run" where
  "startRun now fs pg =
     (let (pg', savedState) = loadState fs pg;
          fresh = \<lparr>allItems = [], cur = None, hasMoreNow = True, pageCount = 0, pag = pg',
                   files = fs, clock = now, called = 0\<rparr>
      in case savedState of
           None \<Rightarrow> fresh
         | Some saved \<Rightarrow>
             if truthy_str (cursor saved)
             then fresh\<lparr>cur := cursor saved, pageCount := pagesFetched saved,
                        pag := pg'\<lparr>state := Some saved\<rparr>\<rparr>
             else fresh)"

text \<open>
  What the \<open>catch\<close> block raises once \<open>saveState\<close> has returned: it reads
  \<open>error.message\<close> (a \<open>TypeError\<close> on \<open>null\<close> and \<open>undefined\<close>) and calls
  \<open>includes\<close> on a message that is present (a \<open>TypeError\<close> when the message has no
  such method); otherwise it ends with \<open>throw error\<close>.
\<close>

fun rethrown :: "'e Thrown \<Rightarrow> 'e Thrown" where
  "rethrown Nullish = TypeError"
| "rethrown (Value NotText e) = TypeError"
| "rethrown thrown = thrown"

definition fetchAll ::
  "nat \<Rightarrow> ('e, 'a) FetchPage \<Rightarrow> int \<Rightarrow> FileSystem \<Rightarrow> Paginator
     \<Rightarrow> (('e, 'a) Outcome \<times> 'a Run) option" where
  "fetchAll fuel fetchFn now fs pg =
     (let maxPages = maxPagesOf (options pg) in
      case fetchLoop fuel fetchFn maxPages (startRun now fs pg) of
        None \<Rightarrow> None
      | Some (Inr r) \<Rightarrow>
          let files' = (if \<not> hasMoreNow r \<or> optAll (options (pag r)) \<noteq> Some True
                        then clearState (pag r) (files r) else files r)
          in Some (Returned \<lparr>resultItems = allItems r, pagesLoaded = pageCount r,
                               complete = (\<not> hasMoreNow r)\<rparr>,
                   r\<lparr>files := files'\<rparr>)
      | Some (Inl (thrown, r)) \<Rightarrow>
          (case saveState (clock r) (cur r) (pag r) (files r) of
             None \<Rightarrow> Some (Raised TypeError, r)
           | Some files' \<Rightarrow> Some (Raised (rethrown thrown), r\<lparr>files := files'\<rparr>)))"

section \<open>Notions used in the statements\<close>

text \<open>Consecutive calls of \<open>SessionPool.getNext\<close>, one per clock reading, in order.\<close>

fun pool_getNextTimes :: "int list \<Rightarrow> SessionPool \<Rightarrow> SessionPool \<times> Session option list" where
  "pool_getNextTimes [] pool = (pool, [])"
| "pool_getNextTimes (t # ts) pool =
     (let (pool1, s) = pool_getNext t pool;
          (pool2, ss) = pool_getNextTimes ts pool1
      in (pool2, s # ss))"

text \<open>The token and the cooldown end of a pooled session.\<close>

definition lockOf :: "PooledSession \<Rightarrow> string \<times> int option" where
  "lockOf s = (authToken s, cooldownUntil s)"

text \<open>Consecutive calls of \<open>ProxyManager.getNext\<close>, one per clock reading, in order.\<close>

fun getNextTimes :: "int list \<Rightarrow> ProxyManager \<Rightarrow> ProxyManager \<times> ProxyConfig option list" where
  "getNextTimes [] m = (m, [])"
| "getNextTimes (t # ts) m =
     (let (m1, p) = getNext t m;
          (m2, ps) = getNextTimes ts m1
      in (m2, p # ps))"

text \<open>Every registered path has a status record and none is disabled.\<close>

definition allHealthy :: "ProxyManager \<Rightarrow> bool" where
  "allHealthy m =
     (\<forall>p \<in> set (proxies m). case status m (url p) of None \<Rightarrow> False | Some st \<Rightarrow> \<not> disabled st)"

text \<open>
  The test \<open>getAvailableProxies\<close> applies to a disabled path: its last failure lies at
  least the cooldown back.
\<close>

definition cooledDown :: "int \<Rightarrow> int \<Rightarrow> ProxyStatus \<Rightarrow> bool" where
  "cooledDown now cooldown st =
     (case lastFailure st of None \<Rightarrow> False | Some t \<Rightarrow> now - t \<ge> cooldown)"

text \<open>
  What \<open>getAvailableProxies\<close> computes, in closed form: a path passes the filter when
  it has no status record, is not disabled, or has cooled down; and the status of a URL
  is reset exactly when it was disabled, has cooled down and belongs to a registered path.
\<close>

definition availablePred :: "int \<Rightarrow> int \<Rightarrow> (string \<rightharpoonup> ProxyStatus) \<Rightarrow> ProxyConfig \<Rightarrow> bool" where
  "availablePred now cooldown S p =
     (case S (url p) of None \<Rightarrow> True | Some st \<Rightarrow> \<not> disabled st \<or> cooledDown now cooldown st)"

definition statusAfter ::
  "int \<Rightarrow> int \<Rightarrow> ProxyConfig list \<Rightarrow> (string \<rightharpoonup> ProxyStatus) \<Rightarrow> (string \<rightharpoonup> ProxyStatus)" where
  "statusAfter now cooldown ps S u =
     (case S u of
        None \<Rightarrow> None
      | Some st \<Rightarrow>
          if disabled st \<and> cooledDown now cooldown st \<and> u \<in> url ` set ps
          then Some (st\<lparr>disabled := False, failures := 0\<rparr>) else Some st)"

text \<open>
  The run after \<open>n\<close> further passes through the loop, each of which received a page
  and processed it without a throw; \<open>None\<close> when the loop ends, or something is
  thrown, before that.
\<close>

fun afterPages :: "nat \<Rightarrow> ('e, 'a) FetchPage \<Rightarrow> PageLimit \<Rightarrow> 'a Run \<Rightarrow> 'a Run option" where
  "afterPages 0 fetchFn maxPages r = Some r"
| "afterPages (Suc n) fetchFn maxPages r =
     (if hasMoreNow r \<and> belowLimit (pageCount r) maxPages then
        (case fetchFn (called r) (cur r) of
           Inl thrown \<Rightarrow> None
         | Inr result \<Rightarrow>
             (case afterPage maxPages result r of
                Inl r' \<Rightarrow> None
              | Inr r' \<Rightarrow> afterPages n fetchFn maxPages r'))
      else None)"

text \<open>
  The checkpoint file at \<open>file\<close> describes the run: it holds the run's cursor, page
  count and number of accumulated items.
\<close>

definition holdsProgress :: "string \<Rightarrow> 'a Run \<Rightarrow> bool" where
  "holdsProgress file r =
     (case files r file of
        Some (Checkpoint cp) \<Rightarrow>
          cursor cp = cur r \<and> pagesFetched cp = pageCount r \<and> totalItems cp = length (allItems r)
      | _ \<Rightarrow> False)"

text \<open>
  Readings of the result of a \<open>fetchAll\<close> run: its outcome, the content of one path
  after it, and the set of paths that hold a file after it.
\<close>

definition outcomeOf :: "(('e, 'a) Outcome \<times> 'a Run) option \<Rightarrow> ('e, 'a) Outcome option" where
  "outcomeOf x = map_option fst x"

definition fileAfter :: "string \<Rightarrow> (('e, 'a) Outcome \<times> 'a Run) option \<Rightarrow> FileContent option option" where
  "fileAfter file x = map_option (\<lambda>p. files (snd p) file) x"

definition pathsAfter :: "(('e, 'a) Outcome \<times> 'a Run) option \<Rightarrow> string set option" where
  "pathsAfter x = map_option (\<lambda>p. dom (files (snd p))) x"

section \<open>Example inputs\<close>

definition sessA :: Session where
  "sessA = \<lparr>authToken = ''tokenA'', ct0 = ''csrfA'', username = None, userId = None\<rparr>"

definition sessB :: Session where
  "sessB = \<lparr>authToken = ''tokenB'', ct0 = ''csrfB'', username = None, userId = None\<rparr>"

definition poolA :: SessionPool where
  "poolA = add sessA emptyPool"

definition poolAB :: SessionPool where
  "poolAB = add sessB (add sessA emptyPool)"

definition proxyA :: ProxyConfig where
  "proxyA = \<lparr>url = ''http://10.0.0.1:8080'', protocol = Some http, host = ''10.0.0.1'',
             port = 8080, auth = None\<rparr>"

definition proxyB :: ProxyConfig where
  "proxyB = \<lparr>url = ''http://10.0.0.2:8080'', protocol = Some http, host = ''10.0.0.2'',
             port = 8080, auth = None\<rparr>"


definition managerAB :: ProxyManager where
  "managerAB = addProxy proxyB (addProxy proxyA (newProxyManager None None))"



text \<open>
  A client with the two-path manager and no cached operation ids; the clock readings of
  one call; a transport that answers with the URL of the proxy it was dispatched through,
  and one that fails.
\<close>

definition clientAB :: BaseClient where
  "clientAB = \<lparr>queryIds = \<lparr>cache = None\<rparr>, rateLimiter = Map.empty,
               proxyManager = Some managerAB\<rparr>"

definition clock1 :: Clock where
  "clock1 = \<lparr>atResolve = 1000, atWait = 1000, atWait' = 1000, atDispatch = 1100,
             atResponse = 1200\<rparr>"

definition echoRequest :: "ProxyConfig option \<Rightarrow> string + string option Response" where
  "echoRequest dispatcher =
     Inr \<lparr>rateHeaders = \<lparr>limit = 50, remaining = 49, reset = 1700000900\<rparr>,
          bodyErrors = None, bodyData = map_option url dispatcher\<rparr>"

definition failRequest :: "ProxyConfig option \<Rightarrow> string + string option Response" where
  "failRequest dispatcher = Inl ''ECONNREFUSED''"

text \<open>The proxy manager of a client, or the empty manager when it has none.\<close>

definition managerOf :: "BaseClient \<Rightarrow> ProxyManager" where
  "managerOf c = (case proxyManager c of None \<Rightarrow> newProxyManager None None | Some m \<Rightarrow> m)"

text \<open>A limiter state with a single record, and a resolver with a one-entry cache.\<close>

definition limiterWith :: "int \<Rightarrow> int \<Rightarrow> RateLimiter" where
  "limiterWith rem rst =
     [''UserTweets'' \<mapsto> \<lparr>info = \<lparr>limit = 50, remaining = rem, reset = rst\<rparr>, infoUpdated = 0\<rparr>]"

definition resolverAt :: "int \<Rightarrow> QueryIdManager" where
  "resolverAt t = \<lparr>cache = Some \<lparr>ids = [''UserTweets'' \<mapsto> ''cachedId''], fetchedAt = t\<rparr>\<rparr>"

text \<open>
  A server with three pages, addressed by cursor; a page-fetch function over it; one
  whose second call is throttled, and one whose second call throws \<open>null\<close>; and a
  file system whose resume file holds the JSON value \<open>null\<close>.
\<close>

definition serverPages :: "string option \<Rightarrow> string Thrown + nat PaginatedResult" where
  "serverPages c =
     (case c of
        None \<Rightarrow> Inr \<lparr>items = [1, 2], nextCursor = Some ''c1'', hasMore = True\<rparr>
      | Some k \<Rightarrow>
          if k = ''c1'' then Inr \<lparr>items = [3], nextCursor = Some ''c2'', hasMore = True\<rparr>
          else if k = ''c2'' then Inr \<lparr>items = [4, 5], nextCursor = None, hasMore = False\<rparr>
          else Inl (Value (Text ''unknown cursor'') ''Error''))"

definition threePages :: "(string, nat) FetchPage" where
  "threePages n c = serverPages c"

definition rateLimited :: "string Thrown" where
  "rateLimited = Value (Text ''Rate limit exceeded (429)'') ''Error''"

definition secondFails :: "(string, nat) FetchPage" where
  "secondFails n c = (if n = 0 then serverPages c else Inl rateLimited)"

definition secondThrowsNull :: "(string, nat) FetchPage" where
  "secondThrowsNull n c = (if n = 0 then serverPages c else Inl Nullish)"

definition nullCheckpoint :: FileSystem where
  "nullCheckpoint = [''resume.json'' \<mapsto> JsonNull]"

text \<open>Paginators created at time 0 with a resume file and various caps, and one without.\<close>

definition resumeOptions :: "bool option \<Rightarrow> int option \<Rightarrow> PaginationOptions" where
  "resumeOptions a n =
     \<lparr>optAll = a, optMaxPages = n, optResume = Some ''resume.json'', optDelay = None,
      optSilent = Some True\<rparr>"

definition paginatorAll :: Paginator where
  "paginatorAll = newPaginator 0 (resumeOptions (Some True) None)"

definition paginatorAllCap2 :: Paginator where
  "paginatorAllCap2 = newPaginator 0 (resumeOptions (Some True) (Some 2))"

definition paginatorCap2 :: Paginator where
  "paginatorCap2 = newPaginator 0 (resumeOptions None (Some 2))"


definition paginatorNoResume :: Paginator where
  "paginatorNoResume = newPaginator 0 ((resumeOptions (Some True) None)\<lparr>optResume := None\<rparr>)"

section \<open>Credential pool: properties\<close>

lemma markFirst_no_match:
  "\<forall>s \<in> set ss. authToken s \<noteq> tok \<Longrightarrow> markFirst tok endpoint resetTime now ss = ss"
  by (induction ss) auto

text \<open>
  C10. Calling \<open>markLimited\<close> with a session whose \<open>authToken\<close> matches no pooled
  credential leaves the pool unchanged: no cooldown is set and no rate state is recorded
  for any credential. The credential to lock out is identified by \<open>authToken\<close> alone:
  two sessions with the same token have the same effect, whatever their other fields.
\<close>

theorem markLimited_frame:
  "((\<forall>s \<in> set (sessions pool). authToken s \<noteq> authToken session)
      \<longrightarrow> markLimited session endpoint resetTime now pool = pool) \<and>
   (authToken session = authToken session'
      \<longrightarrow> markLimited session endpoint resetTime now pool
          = markLimited session' endpoint resetTime now pool)"
  by (simp add: markLimited_def markFirst_no_match)

theorem markLimited_frame_witness:
  "authToken sessB \<notin> authToken ` set (sessions poolA) \<and>
   markLimited sessB ''UserTweets'' 1700000000 1000 poolA = poolA \<and>
   authToken sessB = authToken (sessB\<lparr>ct0 := ''other''\<rparr>) \<and>
   markLimited sessB ''UserTweets'' 1700000000 1000 poolAB
     = markLimited (sessB\<lparr>ct0 := ''other''\<rparr>) ''UserTweets'' 1700000000 1000 poolAB"
  using markLimited_frame [of poolA sessB "''UserTweets''" 1700000000 1000 sessB]
    markLimited_frame [of poolAB sessB "''UserTweets''" 1700000000 1000 "sessB\<lparr>ct0 := ''other''\<rparr>"]
  by (simp add: poolA_def poolAB_def add_def emptyPool_def sessA_def sessB_def)

lemma markFirst_has_locked:
  "tok \<in> authToken ` set ss \<Longrightarrow>
   \<exists>s \<in> set (markFirst tok ep rt now ss). authToken s = tok \<and> cooldownUntil s = Some (now + 24 * 60 * 60 * 1000)"
  by (induction ss) (auto split: if_splits)

lemma availableIndices_sessions:
  "map (\<lambda>i. sessions pool ! i) (availableIndices now pool) = availableSessions now pool"
proof -
  let ?xs = "sessions pool"
  have "filter (notInCooldown now) (map ((!) ?xs) [0..<length ?xs])
      = map ((!) ?xs) (filter (notInCooldown now \<circ> (!) ?xs) [0..<length ?xs])"
    by (rule filter_map)
  then show ?thesis
    by (simp add: availableIndices_def availableSessions_def map_nth comp_def)
qed

lemma pool_getNext_available:
  assumes "availableSessions now pool \<noteq> []"
  shows "\<exists>pool' s. pool_getNext now pool = (pool', Some (toSession s)) \<and> s \<in> set (sessions pool) \<and> notInCooldown now s"
proof -
  let ?av = "availableIndices now pool"
  from assms have ne: "?av \<noteq> []"
    using availableIndices_sessions [of pool now] by (metis map_is_Nil_conv)
  then have sne: "sessions pool \<noteq> []" by (auto simp: availableIndices_def)
  let ?i = "?av ! (poolIndex pool mod length ?av)"
  from ne have "?i \<in> set ?av" by simp
  then have "?i < length (sessions pool)" "notInCooldown now (sessions pool ! ?i)"
    by (auto simp: availableIndices_def)
  with ne sne show ?thesis
    by (auto simp: pool_getNext_def Let_def)
qed


lemma pool_getNext_keeps_locks:
  "map lockOf (sessions (fst (pool_getNext now pool))) = map lockOf (sessions pool)"
proof -
  have "\<And>i. map lockOf ((sessions pool)[i := (sessions pool ! i)\<lparr>lastUsed := now\<rparr>])
             = map lockOf (sessions pool)"
  proof -
    fix i
    show "map lockOf ((sessions pool)[i := (sessions pool ! i)\<lparr>lastUsed := now\<rparr>])
             = map lockOf (sessions pool)"
    proof (cases "i < length (sessions pool)")
      case True
      then show ?thesis
        by (intro nth_equalityI) (auto simp add: nth_list_update lockOf_def)
    next
      case False
      then have "length (sessions pool) \<le> i" by simp
      then have "(sessions pool)[i := (sessions pool ! i)\<lparr>lastUsed := now\<rparr>] = sessions pool"
        by (rule list_update_beyond)
      then show ?thesis by (simp only:)
    qed
  qed
  then show ?thesis by (simp add: pool_getNext_def Let_def)
qed

lemma pool_getNextTimes_keeps_locks:
  "map lockOf (sessions (fst (pool_getNextTimes ts pool))) = map lockOf (sessions pool)"
proof (induction ts arbitrary: pool)
  case Nil
  show ?case by simp
next
  case (Cons t ts)
  have "fst (pool_getNextTimes (t # ts) pool) = fst (pool_getNextTimes ts (fst (pool_getNext t pool)))"
    by (simp add: case_prod_beta Let_def)
  with Cons.IH [of "fst (pool_getNext t pool)"] pool_getNext_keeps_locks [of t pool]
  show ?case by simp
qed

lemma markFirst_tokens:
  "map authToken (markFirst tok ep rt now ss) = map authToken ss"
  by (induction ss) simp_all

lemma tokens_of_locks: "map authToken ss = map fst (map lockOf ss)"
  by (simp add: lockOf_def comp_def)

lemma locked_excluded:
  assumes dist: "distinct (map authToken (sessions P))"
    and lk: "(tok, Some u) \<in> set (map lockOf (sessions P))"
    and u0: "u \<noteq> 0"
  shows "(now \<le> u \<and> availableSessions now P \<noteq> []
            \<longrightarrow> (\<exists>P' r. pool_getNext now P = (P', Some r) \<and> authToken r \<noteq> tok))
       \<and> (u < now \<longrightarrow> tok \<in> authToken ` set (availableSessions now P))"
proof (intro conjI impI)
  from lk obtain s0 where s0: "s0 \<in> set (sessions P)" "authToken s0 = tok" "cooldownUntil s0 = Some u"
    by (auto simp add: lockOf_def)
  from dist have inj: "inj_on authToken (set (sessions P))" by (simp add: distinct_map)
  {
    assume a: "now \<le> u \<and> availableSessions now P \<noteq> []"
    then obtain P' s where g: "pool_getNext now P = (P', Some (toSession s))"
      and s: "s \<in> set (sessions P)" and nc: "notInCooldown now s"
      using pool_getNext_available by blast
    have "authToken s \<noteq> tok"
    proof
      assume "authToken s = tok"
      with s s0 inj have "s = s0" by (auto dest: inj_onD)
      with nc s0 a u0 show False by (simp add: notInCooldown_def truthy_num_def)
    qed
    with g show "\<exists>P' r. pool_getNext now P = (P', Some r) \<and> authToken r \<noteq> tok"
      by (simp add: toSession_def)
  }
  {
    assume "u < now"
    with s0 have "notInCooldown now s0" by (simp add: notInCooldown_def)
    with s0 show "tok \<in> authToken ` set (availableSessions now P)"
      by (force simp: availableSessions_def)
  }
qed

text \<open>
  C4 (as amended). Let \<open>markLimited\<close> be called at time \<open>t0\<close> for a credential
  \<open>c\<close> of a pool whose credentials have pairwise different tokens, and let any number
  of \<open>next()\<close> calls follow, at any times. At every time \<open>now\<close> up to and including
  \<open>t0\<close> plus 24 hours, a call of \<open>next()\<close> that finds at least one credential out
  of cooldown returns a credential other than \<open>c\<close>; at every time after \<open>t0\<close> plus
  24 hours, \<open>c\<close> is again among the credentials \<open>next()\<close> selects from. (When
  every credential is in cooldown, \<open>next()\<close> returns the one whose cooldown ends
  first, which may be \<open>c\<close>.)
\<close>

theorem pool_getNext_lockout:
  assumes dist: "distinct (map authToken (sessions pool))"
    and mem: "authToken c \<in> authToken ` set (sessions pool)"
    and t0: "0 \<le> t0"
  shows "(now \<le> t0 + 86400000
          \<and> availableSessions now (fst (pool_getNextTimes ts (markLimited c ep rt t0 pool))) \<noteq> []
            \<longrightarrow> (\<exists>pool' r. pool_getNext now (fst (pool_getNextTimes ts (markLimited c ep rt t0 pool)))
                            = (pool', Some r)
                   \<and> authToken r \<noteq> authToken c))
       \<and> (t0 + 86400000 < now
            \<longrightarrow> authToken c \<in> authToken `
                  set (availableSessions now (fst (pool_getNextTimes ts (markLimited c ep rt t0 pool)))))"
proof -
  let ?M = "markLimited c ep rt t0 pool"
  let ?P = "fst (pool_getNextTimes ts ?M)"
  have locks: "map lockOf (sessions ?P) = map lockOf (sessions ?M)"
    by (rule pool_getNextTimes_keeps_locks)
  have "map authToken (sessions ?M) = map authToken (sessions pool)"
    by (simp add: markLimited_def markFirst_tokens)
  with dist locks have d: "distinct (map authToken (sessions ?P))"
    by (simp add: tokens_of_locks)
  from mem obtain s where "s \<in> set (sessions ?M)" "authToken s = authToken c"
      "cooldownUntil s = Some (t0 + 24 * 60 * 60 * 1000)"
    using markFirst_has_locked [of "authToken c" "sessions pool" ep rt t0]
    by (auto simp: markLimited_def)
  then have "(authToken c, Some (t0 + 86400000)) \<in> set (map lockOf (sessions ?M))"
    by (force simp add: lockOf_def)
  with locks have lk: "(authToken c, Some (t0 + 86400000)) \<in> set (map lockOf (sessions ?P))"
    by simp
  from t0 have "t0 + 86400000 \<noteq> 0" by simp
  from locked_excluded [OF d lk this, of now] show ?thesis .
qed

theorem pool_getNext_lockout_witness:
  "distinct (map authToken (sessions poolAB)) \<and>
   authToken sessA \<in> authToken ` set (sessions poolAB) \<and> (0::int) \<le> 1000 \<and>
   (2000::int) \<le> 1000 + 86400000 \<and>
   availableSessions 2000
     (fst (pool_getNextTimes [1500] (markLimited sessA ''UserTweets'' 1700000000 1000 poolAB))) \<noteq> [] \<and>
   (\<exists>pool' r. pool_getNext 2000
        (fst (pool_getNextTimes [1500] (markLimited sessA ''UserTweets'' 1700000000 1000 poolAB)))
        = (pool', Some r) \<and> authToken r \<noteq> authToken sessA) \<and>
   (1000::int) + 86400000 < 86401001 \<and>
   authToken sessA \<in> authToken `
      set (availableSessions 86401001
        (fst (pool_getNextTimes [1500] (markLimited sessA ''UserTweets'' 1700000000 1000 poolAB))))"
proof -
  have d: "distinct (map authToken (sessions poolAB))"
    and m: "authToken sessA \<in> authToken ` set (sessions poolAB)"
    by (simp_all add: poolAB_def add_def emptyPool_def sessA_def sessB_def)
  have "map lockOf (sessions (markLimited sessA ''UserTweets'' 1700000000 1000 poolAB))
        = [(''tokenA'', Some 86401000), (''tokenB'', None)]"
    by (simp add: markLimited_def poolAB_def add_def emptyPool_def sessA_def sessB_def lockOf_def)
  then have "map lockOf (sessions (fst (pool_getNextTimes [1500]
            (markLimited sessA ''UserTweets'' 1700000000 1000 poolAB))))
        = [(''tokenA'', Some 86401000), (''tokenB'', None)]"
    by (simp only: pool_getNextTimes_keeps_locks)
  then obtain a b where ab: "sessions (fst (pool_getNextTimes [1500]
            (markLimited sessA ''UserTweets'' 1700000000 1000 poolAB))) = [a, b]"
    and b: "lockOf b = (''tokenB'', None)"
    by (auto simp add: map_eq_Cons_conv)
  then have av: "availableSessions 2000 (fst (pool_getNextTimes [1500]
            (markLimited sessA ''UserTweets'' 1700000000 1000 poolAB))) \<noteq> []"
    by (simp add: availableSessions_def notInCooldown_def truthy_num_def lockOf_def)
  from d m av
    pool_getNext_lockout [of poolAB sessA 1000 2000 "[1500]" "''UserTweets''" 1700000000]
    pool_getNext_lockout [of poolAB sessA 1000 86401001 "[1500]" "''UserTweets''" 1700000000]
  show ?thesis by simp
qed

text \<open>
  C4 as stated fails on a pool that holds only the limited credential: one second after
  \<open>markLimited\<close>, \<open>next()\<close> returns that credential.
\<close>

theorem pool_getNext_lockout_counterexample:
  "(2000::int) < 1000 + 24 * 60 * 60 * 1000 \<and>
   snd (pool_getNext 2000 (markLimited sessA ''UserTweets'' 1700000000 1000 poolA)) = Some sessA"
  by code_simp
section \<open>Rate limiter: properties\<close>

lemma timerDelay_in_range:
  "1 \<le> ms \<Longrightarrow> ms \<le> 2147483647 \<Longrightarrow> timerDelay (of_int ms) = ms"
  by (simp add: timerDelay_def TIMEOUT_MAX_def)

lemma timerDelay_positive: "1 \<le> timerDelay ms"
  by (simp add: timerDelay_def le_floor_iff)

text \<open>
  The cases of \<open>waitIfNeeded\<close>, in the order the source tests them. With no record for
  the endpoint, or with more than 5 requests remaining, it returns without sleeping and
  leaves the limiter as it is. Otherwise, when the reset time has passed, it drops the
  record and returns without sleeping. Otherwise, with no request remaining, it sleeps
  for the time left until the reset plus 1000 ms; while that time does not exceed the
  timer's maximum of \<open>2^31 - 1\<close> ms it cannot return before the reset time plus one
  second. Otherwise (1 to 5 remaining) it sleeps for 60000 ms divided by the remaining
  count. In every case the call returns, with an optional delay and with the limiter
  unchanged or pruned of the endpoint's record.
\<close>

lemma waitIfNeeded_cases:
  "(lims endpoint = None \<longrightarrow> waitIfNeeded now now' endpoint lims = (lims, None))
   \<and> (\<forall>l. lims endpoint = Some l \<and> 5 < remaining (info l)
          \<longrightarrow> waitIfNeeded now now' endpoint lims = (lims, None))
   \<and> (\<forall>l. lims endpoint = Some l \<and> remaining (info l) \<le> 5 \<and> reset (info l) * 1000 < now
          \<longrightarrow> waitIfNeeded now now' endpoint lims = (lims(endpoint := None), None))
   \<and> (\<forall>l. lims endpoint = Some l \<and> remaining (info l) \<le> 0 \<and> now \<le> reset (info l) * 1000
          \<longrightarrow> waitIfNeeded now now' endpoint lims
                = (lims, Some (of_int (reset (info l) * 1000 - now' + 1000)))
            \<and> (reset (info l) * 1000 - now' + 1000 \<le> 2147483647
                 \<longrightarrow> reset (info l) * 1000 + 1000
                       \<le> earliestReturn now' (snd (waitIfNeeded now now' endpoint lims))))
   \<and> (\<forall>l. lims endpoint = Some l \<and> 0 < remaining (info l) \<and> remaining (info l) \<le> 5
              \<and> now \<le> reset (info l) * 1000
          \<longrightarrow> waitIfNeeded now now' endpoint lims
                = (lims, Some (60000 / of_int (remaining (info l)))))
   \<and> (\<exists>lims' slept. waitIfNeeded now now' endpoint lims = (lims', slept)
          \<and> (lims' = lims \<or> lims' = lims(endpoint := None)))"
proof -
  have wake: "\<And>d. d \<le> 2147483647 \<Longrightarrow> now' + d \<le> now' + timerDelay (of_int d)"
  proof -
    fix d :: int
    assume d: "d \<le> 2147483647"
    show "now' + d \<le> now' + timerDelay (of_int d)"
    proof (cases "1 \<le> d")
      case True
      with d show ?thesis by (simp add: timerDelay_in_range)
    next
      case False
      with timerDelay_positive [of "of_int d"] show ?thesis by simp
    qed
  qed
  have c4: "\<And>r. r * 1000 - now' \<le> 2147482647 \<Longrightarrow>
       r * 1000 + 1000 \<le> now' + timerDelay (rat_of_int r * 1000 - rat_of_int now' + 1000)"
  proof -
    fix r :: int
    assume "r * 1000 - now' \<le> 2147482647"
    then have "r * 1000 - now' + 1000 \<le> 2147483647" by simp
    from wake [OF this] show
      "r * 1000 + 1000 \<le> now' + timerDelay (rat_of_int r * 1000 - rat_of_int now' + 1000)"
      by simp
  qed
  show ?thesis
    using c4
    by (auto simp add: waitIfNeeded_def backoffMs_def earliestReturn_def Let_def
          split: option.splits)
qed

text \<open>
  C3 does not hold of the code. With no request remaining and a reset time 30 days
  ahead, \<open>waitIfNeeded\<close> asks \<open>sleep\<close> for 2592001000 ms, which is above the
  timer's maximum of 2147483647 ms; the timer then runs for 1 ms, and the call returns
  one millisecond after it started, 30 days before the reset time.
\<close>

theorem waitIfNeeded_returns_before_reset:
  "isLimited 1700000000000 ''UserTweets'' (limiterWith 0 1702592000) \<and>
   snd (waitIfNeeded 1700000000000 1700000000000 ''UserTweets'' (limiterWith 0 1702592000))
     = Some 2592001000 \<and>
   earliestReturn 1700000000000
     (snd (waitIfNeeded 1700000000000 1700000000000 ''UserTweets'' (limiterWith 0 1702592000)))
     = 1700000000001 \<and>
   (1700000000001 :: int) < 1702592000 * 1000"
  by (simp add: limiterWith_def waitIfNeeded_def isLimited_def earliestReturn_def timerDelay_def
        TIMEOUT_MAX_def)

section \<open>Operation identifier resolver: properties\<close>

text \<open>
  The resolution order of \<open>get\<close>: what the lookup finds in the cache when the cache
  was fetched less than 24 hours (86400000 ms) ago; otherwise what it finds in the static
  fallback table; otherwise \<open>UnknownOperation\<close>. A cache fetched 24 hours ago or
  earlier is ignored: the answer is that of a resolver without cache.
\<close>

lemma get_resolution_order:
  "(\<forall>c queryId. cache q = Some c \<and> now - fetchedAt c < 86400000
                   \<and> lookupId (ids c) operationName = Some queryId
        \<longrightarrow> get now q operationName = Inr queryId)
   \<and> (\<forall>queryId. \<not> (\<exists>c. cache q = Some c \<and> now - fetchedAt c < 86400000
                           \<and> lookupId (ids c) operationName \<noteq> None)
                   \<and> lookupId FALLBACK_QUERY_IDS operationName = Some queryId
        \<longrightarrow> get now q operationName = Inr queryId)
   \<and> (\<not> (\<exists>c. cache q = Some c \<and> now - fetchedAt c < 86400000
                           \<and> lookupId (ids c) operationName \<noteq> None)
        \<and> lookupId FALLBACK_QUERY_IDS operationName = None
        \<longrightarrow> get now q operationName = Inl (UnknownOperation operationName))
   \<and> (\<forall>c. cache q = Some c \<and> 86400000 \<le> now - fetchedAt c
        \<longrightarrow> get now q operationName = get now \<lparr>cache = None\<rparr> operationName)"
  by (auto simp add: get_def isCacheValid_def cacheTTL_def split: option.splits)

lemma get_examples:
  "get 2000 (resolverAt 1000) ''UserTweets'' = Inr (Id ''cachedId'')"
  "get 2000 (resolverAt 1000) ''Followers'' = Inr (Id ''IOh4aS6UdGWGJUYTqliQ7Q'')"
  "get 2000 (resolverAt 1000) ''NoSuchOperation'' = Inl (UnknownOperation ''NoSuchOperation'')"
  "get 86401000 (resolverAt 1000) ''UserTweets'' = Inr (Id ''q6xj5bs0hapm9309hexA_g'')"
  by (simp_all add: get_def isCacheValid_def cacheTTL_def resolverAt_def lookupId_def
        FALLBACK_QUERY_IDS_def objectPrototypeNames_def)

text \<open>
  C6 does not hold of the code. The name \<open>toString\<close> has no id in the fallback
  table (nor in the one-entry cache of the example), yet \<open>get\<close> does not fail with
  \<open>UnknownOperation\<close>: the lookup in the fallback table (with a fresh cache, already
  the lookup in the cache) finds the inherited \<open>Object.prototype.toString\<close>, which
  is truthy, and \<open>get\<close> returns it.
\<close>

theorem get_inherited_name_resolves:
  "FALLBACK_QUERY_IDS ''toString'' = None \<and>
   get 2000 \<lparr>cache = None\<rparr> ''toString'' = Inr (Inherited ''toString'') \<and>
   get 2000 \<lparr>cache = None\<rparr> ''toString'' \<noteq> Inl (UnknownOperation ''toString'') \<and>
   get 2000 (resolverAt 1000) ''toString'' = Inr (Inherited ''toString'')"
  by (simp add: get_def isCacheValid_def cacheTTL_def resolverAt_def lookupId_def
        FALLBACK_QUERY_IDS_def objectPrototypeNames_def)

section \<open>Network egress manager: properties\<close>

lemma availablePred_upd:
  "S (url p) = Some st \<Longrightarrow> disabled st \<Longrightarrow> cooledDown now cd st \<Longrightarrow>
   availablePred now cd (S(url p \<mapsto> st\<lparr>disabled := False, failures := 0\<rparr>)) = availablePred now cd S"
  by (auto simp add: availablePred_def fun_eq_iff)

lemma statusAfter_upd:
  "S (url p) = Some st \<Longrightarrow> disabled st \<Longrightarrow> cooledDown now cd st \<Longrightarrow>
   statusAfter now cd ps (S(url p \<mapsto> st\<lparr>disabled := False, failures := 0\<rparr>)) = statusAfter now cd (p # ps) S"
  by (auto simp: statusAfter_def fun_eq_iff split: option.splits)

lemma statusAfter_skip:
  "S (url p) = Some st \<Longrightarrow> \<not> (disabled st \<and> cooledDown now cd st) \<Longrightarrow>
   statusAfter now cd (p # ps) S = statusAfter now cd ps S"
  by (auto simp: statusAfter_def fun_eq_iff split: option.splits)

lemma statusAfter_none:
  "S (url p) = None \<Longrightarrow> statusAfter now cd (p # ps) S = statusAfter now cd ps S"
  by (auto simp: statusAfter_def fun_eq_iff split: option.splits)

lemma availableFilter_eq:
  "availableFilter now cd ps S = (statusAfter now cd ps S, filter (availablePred now cd S) ps)"
proof (induction ps arbitrary: S)
  case Nil
  show ?case by (auto simp: statusAfter_def fun_eq_iff split: option.splits)
next
  case (Cons p ps)
  show ?case
  proof (cases "S (url p)")
    case None
    then have "availableFilter now cd (p # ps) S
            = (let (S', av) = availableFilter now cd ps S in (S', p # av))"
      by simp
    then have "availableFilter now cd (p # ps) S
            = (statusAfter now cd ps S, p # filter (availablePred now cd S) ps)"
      by (simp only: Cons.IH [of S] Let_def prod.case)
    moreover have "availablePred now cd S p" using None by (simp add: availablePred_def)
    ultimately show ?thesis using None
      by (simp add: statusAfter_none del: availableFilter.simps)
  next
    case (Some st)
    show ?thesis
    proof (cases "disabled st \<and> cooledDown now cd st")
      case True
      let ?S1 = "S(url p \<mapsto> st\<lparr>disabled := False, failures := 0\<rparr>)"
      have f: "filter (availablePred now cd ?S1) ps = filter (availablePred now cd S) ps"
        using Some True by (simp add: availablePred_upd)
      have a: "availablePred now cd S p" using Some True by (simp add: availablePred_def)
      have "availableFilter now cd (p # ps) S
            = (let (S', av) = availableFilter now cd ps ?S1 in (S', p # av))"
        using Some True by (simp add: cooledDown_def)
      then have "availableFilter now cd (p # ps) S
            = (statusAfter now cd ps ?S1, p # filter (availablePred now cd ?S1) ps)"
        by (simp only: Cons.IH [of ?S1] Let_def prod.case)
      with f a Some True show ?thesis
        by (simp add: statusAfter_upd del: availableFilter.simps)
    next
      case False
      have "availableFilter now cd (p # ps) S
            = (let (S', av) = availableFilter now cd ps S in (S', if disabled st then av else p # av))"
        using Some False by (cases "disabled st") (simp_all add: cooledDown_def)
      then have "availableFilter now cd (p # ps) S
            = (statusAfter now cd ps S, if disabled st then filter (availablePred now cd S) ps
                                        else p # filter (availablePred now cd S) ps)"
        by (simp only: Cons.IH [of S] Let_def prod.case)
      moreover have "availablePred now cd S p = (\<not> disabled st)"
        using Some False by (auto simp add: availablePred_def)
      ultimately show ?thesis using Some False
        by (simp add: statusAfter_skip [of S p st now cd ps] del: availableFilter.simps)
    qed
  qed
qed

lemma getAvailableProxies_eq:
  "getAvailableProxies now m =
     (m\<lparr>status := statusAfter now (failureCooldownMs m) (proxies m) (status m)\<rparr>,
      filter (availablePred now (failureCooldownMs m) (status m)) (proxies m))"
  by (simp add: getAvailableProxies_def availableFilter_eq)

lemma healthy_statusAfter:
  "allHealthy m \<Longrightarrow> statusAfter now cd (proxies m) (status m) = status m"
  by (auto simp: allHealthy_def statusAfter_def fun_eq_iff split: option.splits)

lemma healthy_filter:
  "allHealthy m \<Longrightarrow> filter (availablePred now cd (status m)) (proxies m) = proxies m"
  by (auto simp: allHealthy_def availablePred_def filter_id_conv split: option.splits)

lemma getAvailableProxies_healthy:
  "allHealthy m \<Longrightarrow> getAvailableProxies now m = (m, proxies m)"
  by (simp add: getAvailableProxies_eq healthy_statusAfter healthy_filter)

lemma getNext_healthy:
  assumes h: "allHealthy m" and ne: "proxies m \<noteq> []"
  shows "getNext now m =
           (m\<lparr>currentIndex := (currentIndex m + 1) mod length (proxies m)\<rparr>,
            Some (proxies m ! (currentIndex m mod length (proxies m))))"
proof -
  let ?p = "proxies m ! (currentIndex m mod length (proxies m))"
  from ne have "?p \<in> set (proxies m)" by simp
  with h obtain st where st: "status m (url ?p) = Some st" "\<not> disabled st"
    by (auto simp: allHealthy_def split: option.splits)
  from ne have "0 < length (proxies m)" by simp
  with st have "getNextLoop m 0 (proxies m) =
           (m\<lparr>currentIndex := (currentIndex m + 1) mod length (proxies m)\<rparr>, Some ?p)"
    by (subst getNextLoop.simps) (simp add: Let_def)
  with h ne show ?thesis
    by (simp add: getNext_def getAvailableProxies_healthy)
qed

lemma getNextTimes_healthy:
  "allHealthy m \<Longrightarrow> proxies m \<noteq> [] \<Longrightarrow>
   snd (getNextTimes ts m) =
     map (\<lambda>j. Some (proxies m ! ((currentIndex m + j) mod length (proxies m)))) [0..<length ts]"
proof (induction ts arbitrary: m)
  case Nil
  show ?case by simp
next
  case (Cons t ts)
  let ?n = "length (proxies m)"
  let ?m1 = "m\<lparr>currentIndex := (currentIndex m + 1) mod ?n\<rparr>"
  have h1: "allHealthy ?m1" "proxies ?m1 \<noteq> []"
    using Cons.prems by (simp_all add: allHealthy_def)
  have step: "snd (getNextTimes (t # ts) m)
        = Some (proxies m ! (currentIndex m mod ?n)) # snd (getNextTimes ts ?m1)"
    using Cons.prems by (simp add: getNext_healthy split: prod.splits)
  have idx: "\<And>j. ((currentIndex m + 1) mod ?n + j) mod ?n = (currentIndex m + Suc j) mod ?n"
    by (simp add: mod_simps)
  have "[0..<Suc (length ts)] = 0 # [Suc 0..<Suc (length ts)]"
    by (rule upt_conv_Cons) simp
  then have "[0..<length (t # ts)] = 0 # map Suc [0..<length ts]"
    by (simp only: map_Suc_upt length_Cons)
  with step Cons.IH [OF h1] idx show ?case
    by (simp add: comp_def del: upt_Suc)
qed

lemma rotate_same_elements: "mset (rotate k xs) = mset xs"
proof -
  let ?j = "k mod length xs"
  have "mset (take ?j xs) + mset (drop ?j xs) = mset xs"
    by (simp only: mset_append [symmetric] append_take_drop_id)
  then show ?thesis
    by (simp add: rotate_drop_take union_commute)
qed

text \<open>
  Managers built by the constructor and \<open>addProxy\<close> are healthy: registration creates a
  status record, enabled, for every path.
\<close>

lemma newProxyManager_healthy: "allHealthy (newProxyManager a b)"
  by (simp add: allHealthy_def newProxyManager_def)

lemma addProxy_healthy: "allHealthy m \<Longrightarrow> allHealthy (addProxy config m)"
  by (auto simp add: allHealthy_def addProxy_def split: option.splits)

text \<open>
  C7. On a manager whose registered paths all have a status record and are not disabled,
  as many consecutive calls of \<open>next()\<close> as there are paths (at any times) return the
  registered list rotated to the current position: every path exactly once, none twice.
\<close>

theorem getNext_rotation_fair:
  assumes "allHealthy m" and "length ts = length (proxies m)"
  shows "snd (getNextTimes ts m)
           = map Some (rotate (currentIndex m mod length (proxies m)) (proxies m))
       \<and> mset (snd (getNextTimes ts m)) = mset (map Some (proxies m))"
proof (cases "proxies m = []")
  case True
  with assms show ?thesis by simp
next
  case False
  let ?n = "length (proxies m)"
  let ?k = "currentIndex m mod ?n"
  have r: "map (\<lambda>j. proxies m ! ((currentIndex m + j) mod ?n)) [0..<?n] = rotate ?k (proxies m)"
    by (rule nth_equalityI) (simp_all add: nth_rotate mod_simps)
  have "map (\<lambda>j. Some (proxies m ! ((currentIndex m + j) mod ?n))) [0..<?n]
        = map Some (map (\<lambda>j. proxies m ! ((currentIndex m + j) mod ?n)) [0..<?n])"
    by (simp add: comp_def)
  also have "\<dots> = map Some (rotate ?k (proxies m))"
    by (simp only: r)
  finally have "map (\<lambda>j. Some (proxies m ! ((currentIndex m + j) mod ?n))) [0..<?n]
        = map Some (rotate ?k (proxies m))" .
  with assms False have eq: "snd (getNextTimes ts m) = map Some (rotate ?k (proxies m))"
    by (simp add: getNextTimes_healthy)
  with eq rotate_same_elements [of ?k "proxies m"] show ?thesis by simp
qed

theorem getNext_rotation_fair_witness:
  "allHealthy managerAB \<and> length [10, 20 :: int] = length (proxies managerAB) \<and>
   snd (getNextTimes [10, 20] managerAB) = [Some proxyA, Some proxyB] \<and>
   mset (snd (getNextTimes [10, 20] managerAB)) = mset [Some proxyA, Some proxyB]"
proof -
  have p: "proxies managerAB = [proxyA, proxyB]" "currentIndex managerAB = 0"
    by (simp_all add: managerAB_def addProxy_def newProxyManager_def proxyA_def proxyB_def)
  have h: "allHealthy managerAB"
    by (simp add: allHealthy_def managerAB_def addProxy_def newProxyManager_def
          proxyA_def proxyB_def)
  have l: "length [10, 20 :: int] = length (proxies managerAB)"
    by (simp add: p)
  from getNext_rotation_fair [OF h l] h l show ?thesis
    by (simp add: p)
qed






section \<open>Request orchestrator: properties\<close>

lemma managerAB_facts:
  "proxies managerAB = [proxyA, proxyB]"
  "maxFailures managerAB = 3" "failureCooldownMs managerAB = 300000" "currentIndex managerAB = 0"
  by (simp_all add: managerAB_def addProxy_def newProxyManager_def proxyA_def proxyB_def)

text \<open>
  C2 does not hold of the code. \<open>graphql\<close> obtains its dispatcher from
  \<open>getDispatcher\<close>, which calls \<open>getNext\<close> and so advances the rotation, and only
  then reads \<open>getCurrent\<close>: with two healthy paths the request travels through the
  first (the transport below answers with the URL of the dispatcher it was given), while
  the success, or the failure, is recorded for the second.
\<close>

theorem graphql_marks_other_proxy:
  "snd (getDispatcher 1100 (Some managerAB)) = Some proxyA \<and>
   snd (graphql clock1 echoRequest ''UserTweets'' clientAB) = Inr (Some (url proxyA)) \<and>
   map_option lastSuccess
     (status (managerOf (fst (graphql clock1 echoRequest ''UserTweets'' clientAB))) (url proxyA))
     = Some None \<and>
   map_option lastSuccess
     (status (managerOf (fst (graphql clock1 echoRequest ''UserTweets'' clientAB))) (url proxyB))
     = Some (Some 1200) \<and>
   snd (graphql clock1 failRequest ''UserTweets'' clientAB) = Inl (TransportError ''ECONNREFUSED'') \<and>
   map_option failures
     (status (managerOf (fst (graphql clock1 failRequest ''UserTweets'' clientAB))) (url proxyA))
     = Some 0 \<and>
   map_option failures
     (status (managerOf (fst (graphql clock1 failRequest ''UserTweets'' clientAB))) (url proxyB))
     = Some 1"
proof -
  have h: "allHealthy managerAB"
    by (simp add: allHealthy_def managerAB_def addProxy_def newProxyManager_def
          proxyA_def proxyB_def)
  have ne: "proxies managerAB \<noteq> []" by (simp add: managerAB_facts)
  have d: "getDispatcher 1100 (Some managerAB)
            = (Some (managerAB\<lparr>currentIndex := Suc 0\<rparr>), Some proxyA)"
    by (simp add: getDispatcher_def hasProxies_def getNext_healthy [OF h ne] managerAB_facts)
  have q: "get 1000 \<lparr>cache = None\<rparr> ''UserTweets'' = Inr (Id ''q6xj5bs0hapm9309hexA_g'')"
    by (simp add: get_def isCacheValid_def lookupId_def FALLBACK_QUERY_IDS_def)
  have w: "waitIfNeeded 1000 1000 ''UserTweets'' Map.empty = (Map.empty, None)"
    by (simp add: waitIfNeeded_def)
  have c: "getCurrent (managerAB\<lparr>currentIndex := Suc 0\<rparr>) = Some proxyB"
    by (simp add: getCurrent_def managerAB_facts)
  have sB: "status managerAB (url proxyB) = Some \<lparr>statusUrl = url proxyB, failures = 0,
              lastFailure = None, lastSuccess = None, disabled = False\<rparr>"
    and sA: "status managerAB (url proxyA) = Some \<lparr>statusUrl = url proxyA, failures = 0,
              lastFailure = None, lastSuccess = None, disabled = False\<rparr>"
    and ab: "url proxyA \<noteq> url proxyB"
    by (simp_all add: managerAB_def addProxy_def newProxyManager_def proxyA_def proxyB_def)
  have ok: "graphql clock1 echoRequest ''UserTweets'' clientAB =
      (clientAB\<lparr>rateLimiter := update 1200 ''UserTweets'' \<lparr>limit = 50, remaining = 49, reset = 1700000900\<rparr> Map.empty,
                proxyManager := Some (markSuccess 1200 (url proxyB) (managerAB\<lparr>currentIndex := Suc 0\<rparr>))\<rparr>,
       Inr (Some (url proxyA)))"
    by (simp add: graphql_def clientAB_def clock1_def q w d c echoRequest_def)
  have bad: "graphql clock1 failRequest ''UserTweets'' clientAB =
      (clientAB\<lparr>rateLimiter := Map.empty,
                proxyManager := onRequestError 1200 (Some proxyB) (Some (managerAB\<lparr>currentIndex := Suc 0\<rparr>))\<rparr>,
       Inl (TransportError ''ECONNREFUSED''))"
    by (simp add: graphql_def clientAB_def clock1_def q w d c failRequest_def)
  let ?mf = "markFailed 1200 (url proxyB) (managerAB\<lparr>currentIndex := Suc 0\<rparr>)"
  have mf: "status ?mf = (status managerAB)(url proxyB \<mapsto> \<lparr>statusUrl = url proxyB, failures = 1,
              lastFailure = Some 1200, lastSuccess = None, disabled = False\<rparr>)"
      "proxies ?mf = [proxyA, proxyB]" "currentIndex ?mf = Suc 0"
    by (simp_all add: markFailed_def sB managerAB_facts Let_def)
  have hf: "allHealthy ?mf"
    using ab by (simp add: allHealthy_def mf sA)
  have nf: "fst (getNext 1200 ?mf) = ?mf\<lparr>currentIndex := 0\<rparr>"
    using getNext_healthy [OF hf, of 1200] by (simp add: mf)
  show ?thesis
    using ab by (simp add: d ok bad managerOf_def markSuccess_def sA sB
        onRequestError_def nf mf)
qed
section \<open>Paginator: properties\<close>


lemma afterPage_Inr:
  assumes "afterPage cap res r = Inr r'"
  shows "called r' = called r + 1"
    and "options (pag r') = options (pag r)"
    and "pageCount r' = pageCount r + 1"
    and "allItems r' = allItems r @ items res"
    and "cur r' = nextCursor res"
    and "\<exists>st. state (pag r') = Some st \<and> pagesFetched st = pageCount r + 1
              \<and> totalItems st = length (allItems r @ items res)"
    and "resumePath (options (pag r)) = Some file \<Longrightarrow>
           files r' file =
             Some (Checkpoint \<lparr>cursor = nextCursor res, pagesFetched = pageCount r + 1,
                     totalItems = length (allItems r @ items res), lastUpdated = clock r,
                     query = None\<rparr>)"
    and "resumePath (options (pag r)) = None \<Longrightarrow> files r' = files r"
  using assms
  by (auto simp add: afterPage_def Let_def saveState_def split: option.splits)


lemma afterPage_total:
  "state (pag r) \<noteq> None \<Longrightarrow> \<exists>r'. afterPage cap res r = Inr r'"
  by (auto simp add: afterPage_def Let_def saveState_def split: option.splits)

lemma fetchLoop_Inr:
  assumes "fetchLoop fuel f cap r0 = Some (Inr r)" and "P r0"
    and step: "\<And>r res r'. P r \<Longrightarrow> hasMoreNow r \<Longrightarrow> belowLimit (pageCount r) cap
                 \<Longrightarrow> f (called r) (cur r) = Inr res \<Longrightarrow> afterPage cap res r = Inr r' \<Longrightarrow> P r'"
  shows "P r \<and> \<not> (hasMoreNow r \<and> belowLimit (pageCount r) cap)"
  using assms(1,2)
proof (induction fuel arbitrary: r0)
  case 0
  then show ?case by (auto split: if_splits)
next
  case (Suc fuel)
  show ?case
  proof (cases "hasMoreNow r0 \<and> belowLimit (pageCount r0) cap")
    case False
    with Suc.prems show ?thesis by auto
  next
    case True
    with Suc.prems obtain res r1 where res: "f (called r0) (cur r0) = Inr res"
      and r1: "afterPage cap res r0 = Inr r1"
      and rest: "fetchLoop fuel f cap r1 = Some (Inr r)"
      by (auto split: sum.splits)
    from step [OF Suc.prems(2) _ _ res r1] True have "P r1" by simp
    with Suc.IH rest show ?thesis by blast
  qed
qed

lemma fetchLoop_finite:
  "n \<le> int (pageCount r0) + int fuel \<Longrightarrow> fetchLoop fuel f (Pages n) r0 \<noteq> None"
proof (induction fuel arbitrary: r0)
  case 0
  then show ?case by simp
next
  case (Suc fuel)
  show ?case
  proof (cases "f (called r0) (cur r0)")
    case (Inl e)
    then show ?thesis by simp
  next
    case (Inr res)
    show ?thesis
    proof (cases "afterPage (Pages n) res r0")
      case (Inl r1)
      with Inr show ?thesis by simp
    next
      case r1: (Inr r1)
      then have "pageCount r1 = pageCount r0 + 1" by (rule afterPage_Inr)
      with Suc.prems have "n \<le> int (pageCount r1) + int fuel" by simp
      from Suc.IH [OF this] Inr r1 show ?thesis by simp
    qed
  qed
qed

lemma afterPages_fetchLoop:
  "afterPages n f cap r0 = Some r \<Longrightarrow> fetchLoop (n + fuel) f cap r0 = fetchLoop fuel f cap r"
proof (induction n arbitrary: r0)
  case 0
  then show ?case by simp
next
  case (Suc n)
  from Suc.prems have c: "hasMoreNow r0 \<and> belowLimit (pageCount r0) cap"
    by (simp split: if_splits)
  with Suc.prems obtain res r1 where res: "f (called r0) (cur r0) = Inr res"
    and r1: "afterPage cap res r0 = Inr r1"
    and rest: "afterPages n f cap r1 = Some r"
    by (auto split: sum.splits)
  from Suc.IH [OF rest] c res r1 show ?case by simp
qed

lemma afterPages_inv:
  assumes "afterPages n f cap r0 = Some r" and "P r0"
    and step: "\<And>r res r'. P r \<Longrightarrow> afterPage cap res r = Inr r' \<Longrightarrow> P r'"
  shows "P r \<and> called r = called r0 + n"
  using assms(1,2)
proof (induction n arbitrary: r0)
  case 0
  then show ?case by simp
next
  case (Suc n)
  from Suc.prems(1) have c: "hasMoreNow r0 \<and> belowLimit (pageCount r0) cap"
    by (simp split: if_splits)
  with Suc.prems(1) obtain res r1 where r1: "afterPage cap res r0 = Inr r1"
    and rest: "afterPages n f cap r1 = Some r"
    by (auto split: sum.splits)
  from step [OF Suc.prems(2) r1] have "P r1" .
  from Suc.IH [OF rest this] afterPage_Inr(1) [OF r1] show ?case by simp
qed

lemma loadState_facts:
  "options (fst (loadState fs pg)) = options pg"
  by (simp add: loadState_def split: option.splits FileContent.splits)

lemma loadState_state:
  assumes "state pg \<noteq> None"
    and "\<forall>file. resumePath (options pg) = Some file \<longrightarrow> fs file \<noteq> Some JsonNull"
  shows "state (fst (loadState fs pg)) \<noteq> None"
  using assms by (auto simp add: loadState_def split: option.splits FileContent.splits)

lemma startRun_facts:
  "called (startRun now fs pg) = 0" "files (startRun now fs pg) = fs"
  "hasMoreNow (startRun now fs pg)" "allItems (startRun now fs pg) = []"
  "options (pag (startRun now fs pg)) = options pg"
  "state (pag (startRun now fs pg)) = state (fst (loadState fs pg))"
  by (auto simp add: startRun_def loadState_def Let_def split: option.splits FileContent.splits prod.splits)

text \<open>
  Under a finite cap the loop ends: fuel equal to the cap is enough for \<open>fetchAll\<close> to
  produce its outcome.
\<close>

lemma fetchAll_returns_under_cap:
  assumes "maxPagesOf (options pg) = Pages n" and "n \<le> int fuel"
  shows "fetchAll fuel f now fs pg \<noteq> None"
proof -
  from assms(2) have "n \<le> int (pageCount (startRun now fs pg :: 'b Run)) + int fuel" by simp
  from fetchLoop_finite [OF this, of f]
  obtain x where "fetchLoop fuel f (Pages n) (startRun now fs pg) = Some x" by blast
  with assms(1) show ?thesis
    by (cases x) (auto simp add: fetchAll_def Let_def split: prod.splits option.splits)
qed

subsection \<open>Runs on the example inputs\<close>

lemmas paginator_eval =
  fetchAll_def startRun_def loadState_def resumePath_def truthy_str_def truthy_num_def
  newPaginator_def maxPagesOf_def afterPage_def saveState_def clearState_def Let_def
  threePages_def secondFails_def secondThrowsNull_def serverPages_def rateLimited_def
  resumeOptions_def timerDelay_def TIMEOUT_MAX_def eval_nat_numeral

lemma run_all:
  "map_option fst (fetchAll 5 threePages 0 Map.empty paginatorAll)
     = Some (Returned \<lparr>resultItems = [1, 2, 3, 4, 5], pagesLoaded = 3, complete = True\<rparr>)"
  by (simp add: paginator_eval paginatorAll_def)

lemma run_allcap2:
  "map_option fst (fetchAll 5 threePages 0 Map.empty paginatorAllCap2)
     = Some (Returned \<lparr>resultItems = [1, 2, 3], pagesLoaded = 2, complete = False\<rparr>)"
  "map_option (called \<circ> snd) (fetchAll 5 threePages 0 Map.empty paginatorAllCap2) = Some 2"
  by (simp_all add: paginator_eval paginatorAllCap2_def)

lemma run_cap2:
  "map_option fst (fetchAll 5 threePages 0 Map.empty paginatorCap2)
     = Some (Returned \<lparr>resultItems = [1, 2, 3], pagesLoaded = 2, complete = False\<rparr>)"
  "map_option (\<lambda>x. files (snd x) ''resume.json'') (fetchAll 5 threePages 0 Map.empty paginatorCap2)
     = Some None"
  by (simp_all add: paginator_eval paginatorCap2_def)

lemma run_first_page:
  "\<exists>r. afterPages 1 secondFails (maxPagesOf (options paginatorAll))
          (startRun 0 Map.empty paginatorAll) = Some r
      \<and> hasMoreNow r \<and> cur r = Some ''c1'' \<and> pageCount r = 1 \<and> allItems r = [1, 2]
      \<and> called r = 1 \<and> clock r = 1000"
  by (simp add: paginator_eval paginatorAll_def)

lemma run_fail_noresume:
  "map_option fst (fetchAll 5 secondFails 0 Map.empty paginatorNoResume) = Some (Raised rateLimited)"
  "map_option (\<lambda>x. dom (files (snd x))) (fetchAll 5 secondFails 0 Map.empty paginatorNoResume) = Some {}"
  by (simp_all add: paginator_eval paginatorNoResume_def)

lemma example_resume_paths:
  "resumePath (options paginatorAll) = Some ''resume.json''"
  "resumePath (options paginatorAllCap2) = Some ''resume.json''"
  "resumePath (options paginatorCap2) = Some ''resume.json''"
  "resumePath (options paginatorNoResume) = None"
  "maxPagesOf (options paginatorAll) = Infinity"
  "maxPagesOf (options paginatorAllCap2) = Pages 2"
  "maxPagesOf (options paginatorCap2) = Pages 2"
  "optAll (options paginatorAllCap2) = Some True"
  "optAll (options paginatorCap2) = None"
  "state paginatorAll \<noteq> None"
  by (simp_all add: paginatorAll_def paginatorAllCap2_def paginatorCap2_def paginatorNoResume_def
        newPaginator_def resumeOptions_def resumePath_def truthy_str_def maxPagesOf_def truthy_num_def)


subsection \<open>The claims\<close>




lemma fetchAll_ReturnedE:
  assumes "fetchAll fuel f now fs pg = Some (Returned res, r)"
  obtains r1 where "fetchLoop fuel f (maxPagesOf (options pg)) (startRun now fs pg) = Some (Inr r1)"
    and "res = \<lparr>resultItems = allItems r1, pagesLoaded = pageCount r1, complete = (\<not> hasMoreNow r1)\<rparr>"
    and "r = r1\<lparr>files := (if \<not> hasMoreNow r1 \<or> optAll (options (pag r1)) \<noteq> Some True
                             then clearState (pag r1) (files r1) else files r1)\<rparr>"
proof (cases "fetchLoop fuel f (maxPagesOf (options pg)) (startRun now fs pg)")
  case None
  with assms show ?thesis by (simp add: fetchAll_def)
next
  case (Some x)
  show ?thesis
  proof (cases x)
    case (Inl er)
    obtain e r1 where er: "er = (e, r1)" by (cases er)
    with Inl Some assms show ?thesis
      by (cases "saveState (clock r1) (cur r1) (pag r1) (files r1)") (simp_all add: fetchAll_def)
  next
    case (Inr r1)
    with Some assms that [of r1] show ?thesis by (simp add: fetchAll_def Let_def)
  qed
qed

text \<open>
  C1 (as amended). Let a resume path be configured and let \<open>fetchAll\<close> return. If the
  run is complete (the last page reported no further data), the checkpoint file is
  deleted. If it is not complete, the page count has reached the cap; then the
  checkpoint file is retained when the \<open>all\<close> option is set (it describes the run's
  cursor, page count and item count, or is the file as found when the run fetched no
  page), and deleted when \<open>all\<close> is not set.
\<close>

theorem fetchAll_checkpoint_disposal:
  assumes rp: "resumePath (options pg) = Some file"
    and run: "fetchAll fuel f now fs pg = Some (Returned res, r)"
  shows "(complete res \<longrightarrow> files r file = None)
       \<and> (\<not> complete res \<longrightarrow> \<not> belowLimit (pageCount r) (maxPagesOf (options pg)))
       \<and> (\<not> complete res \<and> optAll (options pg) = Some True \<longrightarrow>
             (if called r = 0 then files r file = fs file else holdsProgress file r))
       \<and> (\<not> complete res \<and> optAll (options pg) \<noteq> Some True \<longrightarrow> files r file = None)"
proof -
  let ?cap = "maxPagesOf (options pg)"
  let ?P = "\<lambda>r. options (pag r) = options pg
               \<and> (if called r = 0 then files r = fs else holdsProgress file r)"
  from run obtain r1 where loop: "fetchLoop fuel f ?cap (startRun now fs pg) = Some (Inr r1)"
    and res: "res = \<lparr>resultItems = allItems r1, pagesLoaded = pageCount r1, complete = (\<not> hasMoreNow r1)\<rparr>"
    and r: "r = r1\<lparr>files := (if \<not> hasMoreNow r1 \<or> optAll (options (pag r1)) \<noteq> Some True
                             then clearState (pag r1) (files r1) else files r1)\<rparr>"
    by (rule fetchAll_ReturnedE)
  have P0: "?P (startRun now fs pg)" by (simp add: startRun_facts)
  have step: "\<And>r res r'. ?P r \<Longrightarrow> hasMoreNow r \<Longrightarrow> belowLimit (pageCount r) ?cap
                 \<Longrightarrow> f (called r) (cur r) = Inr res \<Longrightarrow> afterPage ?cap res r = Inr r' \<Longrightarrow> ?P r'"
  proof -
    fix r res r'
    assume P: "?P r" and r': "afterPage ?cap res r = Inr r'"
    from P rp have "resumePath (options (pag r)) = Some file" by simp
    from afterPage_Inr(7) [OF r' this] afterPage_Inr(1,2,3,4,5) [OF r'] P
    show "?P r'" by (simp add: holdsProgress_def)
  qed
  have "?P r1 \<and> \<not> (hasMoreNow r1 \<and> belowLimit (pageCount r1) ?cap)"
    by (rule fetchLoop_Inr [where P = ?P, OF loop P0]) (fact step)
  then have P1: "?P r1" and ex: "\<not> (hasMoreNow r1 \<and> belowLimit (pageCount r1) ?cap)"
    by (rule conjunct1, rule conjunct2)
  from P1 rp have cl: "clearState (pag r1) (files r1) file = None"
    by (simp add: clearState_def)
  from P1 rp ex cl show ?thesis
    by (auto simp add: res r holdsProgress_def)
qed

theorem fetchAll_checkpoint_disposal_witness:
  "resumePath (options paginatorAll) = Some ''resume.json'' \<and>
   (\<exists>res r. fetchAll 5 threePages 0 Map.empty paginatorAll = Some (Returned res, r)
        \<and> complete res \<and> files r ''resume.json'' = None) \<and>
   (\<exists>res r. fetchAll 5 threePages 0 Map.empty paginatorAllCap2 = Some (Returned res, r)
        \<and> \<not> complete res \<and> optAll (options paginatorAllCap2) = Some True
        \<and> \<not> belowLimit (pageCount r) (Pages 2) \<and> holdsProgress ''resume.json'' r) \<and>
   (\<exists>res r. fetchAll 5 threePages 0 Map.empty paginatorCap2 = Some (Returned res, r)
        \<and> \<not> complete res \<and> optAll (options paginatorCap2) \<noteq> Some True
        \<and> files r ''resume.json'' = None)"
proof -
  note rp = example_resume_paths
  from run_all obtain r1 where run1: "fetchAll 5 threePages 0 Map.empty paginatorAll
      = Some (Returned \<lparr>resultItems = [1, 2, 3, 4, 5], pagesLoaded = 3, complete = True\<rparr>, r1)"
    by (cases "fetchAll 5 threePages 0 Map.empty paginatorAll") auto
  from fetchAll_checkpoint_disposal [OF rp(1) run1]
  have a: "\<exists>res r. fetchAll 5 threePages 0 Map.empty paginatorAll = Some (Returned res, r)
        \<and> complete res \<and> files r ''resume.json'' = None"
    using run1 by simp
  from run_allcap2 obtain r2 where run2: "fetchAll 5 threePages 0 Map.empty paginatorAllCap2
      = Some (Returned \<lparr>resultItems = [1, 2, 3], pagesLoaded = 2, complete = False\<rparr>, r2)"
    and c2: "called r2 = 2"
    by (cases "fetchAll 5 threePages 0 Map.empty paginatorAllCap2") auto
  from fetchAll_checkpoint_disposal [OF rp(2) run2] c2
  have b: "\<exists>res r. fetchAll 5 threePages 0 Map.empty paginatorAllCap2 = Some (Returned res, r)
        \<and> \<not> complete res \<and> optAll (options paginatorAllCap2) = Some True
        \<and> \<not> belowLimit (pageCount r) (Pages 2) \<and> holdsProgress ''resume.json'' r"
    using run2 by (simp add: rp)
  from run_cap2 obtain r3 where run3: "fetchAll 5 threePages 0 Map.empty paginatorCap2
      = Some (Returned \<lparr>resultItems = [1, 2, 3], pagesLoaded = 2, complete = False\<rparr>, r3)"
    by (cases "fetchAll 5 threePages 0 Map.empty paginatorCap2") auto
  from fetchAll_checkpoint_disposal [OF rp(3) run3]
  have c: "\<exists>res r. fetchAll 5 threePages 0 Map.empty paginatorCap2 = Some (Returned res, r)
        \<and> \<not> complete res \<and> optAll (options paginatorCap2) \<noteq> Some True
        \<and> files r ''resume.json'' = None"
    using run3 by (simp add: rp)
  from a b c rp(1) show ?thesis by (intro conjI)
qed

text \<open>
  C1 as stated fails for a run with a cap of two pages and no \<open>all\<close> option: the
  second page still reports more data, the run stops at the cap, and the checkpoint file
  is gone afterwards.
\<close>

theorem fetchAll_checkpoint_disposal_counterexample:
  "maxPagesOf (options paginatorCap2) = Pages 2 \<and>
   resumePath (options paginatorCap2) = Some ''resume.json'' \<and>
   outcomeOf (fetchAll 5 threePages 0 Map.empty paginatorCap2)
     = Some (Returned \<lparr>resultItems = [1, 2, 3], pagesLoaded = 2, complete = False\<rparr>) \<and>
   fileAfter ''resume.json'' (fetchAll 5 threePages 0 Map.empty paginatorCap2) = Some None"
  by (simp add: run_cap2 example_resume_paths outcomeOf_def fileAfter_def)



text \<open>
  C8 (as amended). Let the page-fetch function return pages on its first \<open>n\<close> calls
  and throw on the next one, the loop being still under way (more data reported, page cap
  not reached). Let the value thrown be other than \<open>null\<close> and \<open>undefined\<close>, with a
  \<open>message\<close> that is absent or a string, and let the resume file, if there is one,
  not hold the JSON value \<open>null\<close>. Then \<open>fetchAll\<close>, with fuel for these calls,
  raises that same value. If a resume path is configured, the checkpoint file then holds
  the current cursor, together with the page and item counts of the run when \<open>n > 0\<close>,
  and with the counts the paginator started with (those of the checkpoint loaded, if any)
  when the very first call threw. If no resume path is configured, the file system is as
  it was: nothing is persisted.
\<close>

theorem fetchAll_error_checkpoint:
  fixes f :: "('e, 'a) FetchPage"
  assumes pages: "afterPages n f (maxPagesOf (options pg)) (startRun now fs pg) = Some r"
    and under_way: "hasMoreNow r" "belowLimit (pageCount r) (maxPagesOf (options pg))"
    and throws: "f (called r) (cur r) = Inl (Value msg e)"
    and msg: "msg \<noteq> NotText"
    and fuel: "n < fuel"
    and st: "state pg \<noteq> None"
    and nonnull: "\<forall>file. resumePath (options pg) = Some file \<longrightarrow> fs file \<noteq> Some JsonNull"
  shows "\<exists>r'. fetchAll fuel f now fs pg = Some (Raised (Value msg e), r')
           \<and> cur r' = cur r \<and> pageCount r' = pageCount r \<and> allItems r' = allItems r
           \<and> (resumePath (options pg) = None \<longrightarrow> files r' = fs)
           \<and> (\<forall>file. resumePath (options pg) = Some file \<longrightarrow>
                 (\<exists>cp. files r' file = Some (Checkpoint cp)
                      \<and> cursor cp = cur r
                      \<and> (if n = 0
                         then \<exists>st. state (fst (loadState fs pg)) = Some st
                                  \<and> pagesFetched cp = pagesFetched st
                                  \<and> totalItems cp = totalItems st
                         else pagesFetched cp = pageCount r
                              \<and> totalItems cp = length (allItems r))))"
proof -
  let ?cap = "maxPagesOf (options pg)"
  let ?r0 = "startRun now fs pg :: 'a Run"
  let ?P = "\<lambda>x. options (pag x) = options pg
               \<and> (resumePath (options pg) = None \<longrightarrow> files x = fs)
               \<and> (\<exists>st. state (pag x) = Some st
                      \<and> (if called x = 0 then state (fst (loadState fs pg)) = Some st
                         else pagesFetched st = pageCount x
                              \<and> totalItems st = length (allItems x)))"
  from loadState_state [OF st nonnull] obtain st0 where st0: "state (fst (loadState fs pg)) = Some st0"
    by blast
  have P0: "?P ?r0" by (simp add: startRun_facts st0)
  have step: "\<And>(x :: 'a Run) res x'. ?P x \<Longrightarrow> afterPage ?cap res x = Inr x' \<Longrightarrow> ?P x'"
  proof -
    fix x :: "'a Run" and res x'
    assume P: "?P x" and x': "afterPage ?cap res x = Inr x'"
    from afterPage_Inr(6) [OF x'] obtain st' where st': "state (pag x') = Some st'"
      "pagesFetched st' = pageCount x + 1" "totalItems st' = length (allItems x @ items res)"
      by blast
    have a: "options (pag x') = options pg"
      using P afterPage_Inr(2) [OF x'] by simp
    have b: "resumePath (options pg) = None \<longrightarrow> files x' = fs"
    proof
      assume n: "resumePath (options pg) = None"
      with P have "resumePath (options (pag x)) = None" by simp
      from afterPage_Inr(8) [OF x' this] P n show "files x' = fs" by simp
    qed
    have c: "\<exists>st. state (pag x') = Some st
                      \<and> (if called x' = 0 then state (fst (loadState fs pg)) = Some st
                         else pagesFetched st = pageCount x'
                              \<and> totalItems st = length (allItems x'))"
      using st' afterPage_Inr(1,3,4) [OF x'] by simp
    from a b c show "?P x'" by (intro conjI)
  qed
  have "?P r \<and> called r = called ?r0 + n"
    by (rule afterPages_inv [where P = ?P, OF pages P0]) (fact step)
  then have Pr: "?P r" and cr: "called r = called ?r0 + n"
    by (rule conjunct1, rule conjunct2)
  from cr have cr: "called r = n" by (simp add: startRun_facts)
  from Pr have opts: "options (pag r) = options pg" by (rule conjunct1)
  from Pr have keep: "resumePath (options pg) = None \<longrightarrow> files r = fs" by (elim conjE)
  from Pr obtain str where str: "state (pag r) = Some str"
    and counts: "if called r = 0 then state (fst (loadState fs pg)) = Some str
                 else pagesFetched str = pageCount r \<and> totalItems str = length (allItems r)"
    by blast
  from less_imp_Suc_add [OF fuel] obtain k where "fuel = Suc (n + k)" ..
  then have k: "fuel = n + Suc k" by simp
  let ?r1 = "r\<lparr>called := called r + 1\<rparr>"
  have loop: "fetchLoop fuel f ?cap ?r0 = Some (Inl (Value msg e, ?r1))"
    unfolding k afterPages_fetchLoop [OF pages]
    using under_way throws by simp
  have reraise: "rethrown (Value msg e) = Value msg e"
    using msg by (cases msg) simp_all
  show ?thesis
  proof (cases "resumePath (options pg)")
    case None
    then have save: "saveState (clock r) (cur r) (pag r) (files r) = Some (files r)"
      by (simp add: saveState_def opts)
    have run: "fetchAll fuel f now fs pg = Some (Raised (Value msg e), ?r1\<lparr>files := files r\<rparr>)"
      by (simp add: fetchAll_def Let_def loop save reraise del: rethrown.simps)
    from keep None have "files r = fs" by simp
    with run None show ?thesis by simp
  next
    case (Some path)
    let ?cp = "\<lparr>cursor = cur r, pagesFetched = pagesFetched str, totalItems = totalItems str,
                lastUpdated = clock r, query = None\<rparr>"
    let ?fs' = "(files r)(path \<mapsto> Checkpoint ?cp)"
    from Some have save: "saveState (clock r) (cur r) (pag r) (files r) = Some ?fs'"
      by (simp add: saveState_def opts str)
    have run: "fetchAll fuel f now fs pg = Some (Raised (Value msg e), ?r1\<lparr>files := ?fs'\<rparr>)"
      by (simp add: fetchAll_def Let_def loop save reraise del: rethrown.simps)
    have cp: "files (?r1\<lparr>files := ?fs'\<rparr>) path = Some (Checkpoint ?cp)" by simp
    have cnt: "if n = 0
               then \<exists>st. state (fst (loadState fs pg)) = Some st
                        \<and> pagesFetched ?cp = pagesFetched st \<and> totalItems ?cp = totalItems st
               else pagesFetched ?cp = pageCount r \<and> totalItems ?cp = length (allItems r)"
      using counts cr by (cases "n = 0") simp_all
    have "\<exists>cp. files (?r1\<lparr>files := ?fs'\<rparr>) path = Some (Checkpoint cp)
              \<and> cursor cp = cur r
              \<and> (if n = 0
                 then \<exists>st. state (fst (loadState fs pg)) = Some st
                          \<and> pagesFetched cp = pagesFetched st \<and> totalItems cp = totalItems st
                 else pagesFetched cp = pageCount r \<and> totalItems cp = length (allItems r))"
      using cp cnt by (intro exI [of _ ?cp] conjI) simp_all
    with run Some show ?thesis by simp
  qed
qed

theorem fetchAll_error_checkpoint_witness:
  "\<exists>r. afterPages 1 secondFails (maxPagesOf (options paginatorAll))
          (startRun 0 Map.empty paginatorAll) = Some r
      \<and> hasMoreNow r \<and> belowLimit (pageCount r) (maxPagesOf (options paginatorAll))
      \<and> secondFails (called r) (cur r) = Inl (Value (Text ''Rate limit exceeded (429)'') ''Error'')
      \<and> state paginatorAll \<noteq> None
      \<and> (\<exists>r' cp. fetchAll 5 secondFails 0 Map.empty paginatorAll
                    = Some (Raised (Value (Text ''Rate limit exceeded (429)'') ''Error''), r')
                \<and> files r' ''resume.json'' = Some (Checkpoint cp)
                \<and> cursor cp = Some ''c1'' \<and> pagesFetched cp = 1 \<and> totalItems cp = 2)"
proof -
  note ex = example_resume_paths
  from run_first_page obtain r where
    pages: "afterPages 1 secondFails (maxPagesOf (options paginatorAll))
              (startRun 0 Map.empty paginatorAll) = Some r"
    and v: "hasMoreNow r" "cur r = Some ''c1''" "pageCount r = 1" "allItems r = [1, 2]"
      "called r = 1" "clock r = 1000"
    by blast
  have below: "belowLimit (pageCount r) (maxPagesOf (options paginatorAll))"
    by (simp add: ex)
  have throws: "secondFails (called r) (cur r)
                  = Inl (Value (Text ''Rate limit exceeded (429)'') ''Error'')"
    by (simp add: v secondFails_def rateLimited_def)
  have nonnull: "\<forall>file. resumePath (options paginatorAll) = Some file
                \<longrightarrow> Map.empty file \<noteq> Some JsonNull"
    by simp
  from fetchAll_error_checkpoint [where fuel = 5, OF pages v(1) below throws _ _ ex(10) nonnull]
  obtain r' where run: "fetchAll 5 secondFails 0 Map.empty paginatorAll
                 = Some (Raised (Value (Text ''Rate limit exceeded (429)'') ''Error''), r')"
    and cp: "\<exists>cp. files r' ''resume.json'' = Some (Checkpoint cp)
                 \<and> cursor cp = cur r
                 \<and> pagesFetched cp = pageCount r \<and> totalItems cp = length (allItems r)"
    by (auto simp add: ex)
  from cp obtain cp where c: "files r' ''resume.json'' = Some (Checkpoint cp)"
    "cursor cp = Some ''c1''" "pagesFetched cp = 1" "totalItems cp = 2"
    by (auto simp add: v)
  with run have "\<exists>r' cp. fetchAll 5 secondFails 0 Map.empty paginatorAll
                    = Some (Raised (Value (Text ''Rate limit exceeded (429)'') ''Error''), r')
                \<and> files r' ''resume.json'' = Some (Checkpoint cp)
                \<and> cursor cp = Some ''c1'' \<and> pagesFetched cp = 1 \<and> totalItems cp = 2"
    by blast
  with pages v(1) below throws ex(10) show ?thesis by blast
qed

text \<open>
  C8 as stated fails for a paginator without a resume path: the second call of the
  page-fetch function throws, \<open>fetchAll\<close> re-raises, and no file has been written.
\<close>

theorem fetchAll_error_checkpoint_counterexample:
  "resumePath (options paginatorNoResume) = None \<and>
   secondFails 1 (Some ''c1'') = Inl rateLimited \<and>
   outcomeOf (fetchAll 5 secondFails 0 Map.empty paginatorNoResume) = Some (Raised rateLimited) \<and>
   pathsAfter (fetchAll 5 secondFails 0 Map.empty paginatorNoResume) = Some {}"
  by (simp add: run_fail_noresume example_resume_paths outcomeOf_def pathsAfter_def
        secondFails_def)

text \<open>
  Two inputs that the amended C8 leaves out. When the page-fetch function throws
  \<open>null\<close>, the \<open>catch\<close> block writes the checkpoint and then fails itself on
  \<open>error.message\<close>: the caller receives a \<open>TypeError\<close>, not the value thrown. When
  the resume file holds the JSON value \<open>null\<close>, \<open>loadState\<close> makes it the
  paginator's state, the first page cannot be counted, and \<open>saveState\<close> fails in the
  \<open>catch\<close> block as well: the caller receives a \<open>TypeError\<close> although the
  page-fetch function returned a page, and the file is left as it was.
\<close>

lemma fetchAll_thrown_null:
  "outcomeOf (fetchAll 5 secondThrowsNull 0 Map.empty paginatorAll) = Some (Raised TypeError)"
  "fileAfter ''resume.json'' (fetchAll 5 secondThrowsNull 0 Map.empty paginatorAll)
     = Some (Some (Checkpoint \<lparr>cursor = Some ''c1'', pagesFetched = 1, totalItems = 2,
                                lastUpdated = 1000, query = None\<rparr>))"
  by (simp_all add: paginator_eval paginatorAll_def outcomeOf_def fileAfter_def)

lemma fetchAll_null_checkpoint:
  "threePages 0 None = Inr \<lparr>items = [1, 2], nextCursor = Some ''c1'', hasMore = True\<rparr>"
  "outcomeOf (fetchAll 5 threePages 0 nullCheckpoint paginatorAll) = Some (Raised TypeError)"
  "fileAfter ''resume.json'' (fetchAll 5 threePages 0 nullCheckpoint paginatorAll)
     = Some (Some JsonNull)"
  by (simp_all add: paginator_eval paginatorAll_def outcomeOf_def fileAfter_def nullCheckpoint_def)


end
